theory Spec2Isabelle
  imports Main "HOL-Library.Word"
begin

section \<open>Durations and backoff strategies\<close>

text \<open>
  A \<^verbatim>\<open>time.Duration\<close> is an \<^verbatim>\<open>int64\<close> count of nanoseconds: arithmetic wraps
  around modulo \<open>2 ^ 64\<close> and \<open>sint\<close> reads the signed value. Attempt numbers are Go
  \<^verbatim>\<open>int\<close>s, modelled as unbounded \<open>int\<close> (no pipeline runs \<open>2 ^ 63\<close> attempts).
\<close>

type_synonym duration = "64 word"

definition Millisecond :: duration where
  "Millisecond = 1000000"

definition Second :: duration where
  "Second = 1000 * Millisecond"

definition Minute :: duration where
  "Minute = 60 * Second"

definition ExponentialBackoff :: "int \<Rightarrow> duration \<Rightarrow> duration" where
  "ExponentialBackoff attempt prev =
     (if prev = 0 then 500 * Millisecond else prev * 2)"

definition ConstantBackoff :: "int \<Rightarrow> duration \<Rightarrow> duration" where
  "ConstantBackoff attempt prev =
     (if prev = 0 then 500 * Millisecond else prev)"

text \<open>
  The loop \<^verbatim>\<open>for i := 3; i <= attempt; i++ { a, b = b, a+b }\<close> of
  \<^verbatim>\<open>FibonacciBackoff\<close>, on \<^verbatim>\<open>int64\<close> values.
\<close>

function fibLoop :: "int \<Rightarrow> int \<Rightarrow> 64 word \<Rightarrow> 64 word \<Rightarrow> 64 word" where
  "fibLoop i attempt a b = (if i \<le> attempt then fibLoop (i + 1) attempt b (a + b) else b)"
  by pat_completeness auto
termination
  by (relation "measure (\<lambda>(i, attempt, a, b). nat (attempt + 1 - i))") auto

declare fibLoop.simps [simp del]

definition FibonacciBackoff :: "int \<Rightarrow> duration \<Rightarrow> duration" where
  "FibonacciBackoff attempt prev =
     (if attempt \<le> 1 then 500 * Millisecond
      else fibLoop 3 attempt 1 1 * 500 * Millisecond)"

text \<open>
  The Fibonacci sequence the specification refers to, \<open>fib 1 = fib 2 = 1\<close>, over the
  natural numbers (no wrap-around).
\<close>

fun fib :: "nat \<Rightarrow> nat" where
  "fib 0 = 0"
| "fib (Suc 0) = 1"
| "fib (Suc (Suc n)) = fib n + fib (Suc n)"


text \<open>
  The same iteration on unbounded integers, from an arbitrary pair of start values; it
  evaluates \<open>fib\<close> at a numeral in linearly many steps.
\<close>

fun fibIter :: "nat \<Rightarrow> int \<Rightarrow> int \<Rightarrow> int" where
  "fibIter 0 a b = a"
| "fibIter (Suc n) a b = fibIter n b (a + b)"


section \<open>Values, types and errors\<close>

text \<open>
  A value of Go's \<^verbatim>\<open>any\<close>: the nil interface, or a value with its dynamic type.
  The pipelines of the repository pass integers and strings; \<open>TAny\<close> is the static
  type \<^verbatim>\<open>any\<close> itself, which no value has as its dynamic type.
\<close>

datatype gotype = TAny | TInt | TString

datatype val = VNil | VInt int | VString string

fun typeOf :: "val \<Rightarrow> gotype option" where
  "typeOf VNil = None"
| "typeOf (VInt n) = Some TInt"
| "typeOf (VString s) = Some TString"

fun zeroValue :: "gotype \<Rightarrow> val" where
  "zeroValue TAny = VNil"
| "zeroValue TInt = VInt 0"
| "zeroValue TString = VString []"

fun typeString :: "gotype \<Rightarrow> string" where
  "typeString TAny = ''<nil>''"
| "typeString TInt = ''int''"
| "typeString TString = ''string''"

text \<open>The comma-ok type assertion \<^verbatim>\<open>in, ok := input.(In)\<close>.\<close>

definition typeAssert :: "val \<Rightarrow> gotype \<Rightarrow> val \<times> bool" where
  "typeAssert input In =
     (case typeOf input of
        None \<Rightarrow> (zeroValue In, False)
      | Some t \<Rightarrow> if In = TAny \<or> t = In then (input, True) else (zeroValue In, False))"

text \<open>\<^verbatim>\<open>reflect.Type.AssignableTo\<close> on the types above.\<close>

definition assignableTo :: "gotype \<Rightarrow> gotype \<Rightarrow> bool" where
  "assignableTo t u = (u = TAny \<or> t = u)"

type_synonym ErrorClass = string

text \<open>
  Error values. \<open>ErrorString\<close> is what \<^verbatim>\<open>errors.New\<close> and \<^verbatim>\<open>fmt.Errorf\<close>
  without \<^verbatim>\<open>%w\<close> build, \<open>WrapError\<close> what \<^verbatim>\<open>fmt.Errorf\<close> with \<^verbatim>\<open>%w\<close> builds,
  \<open>CustomError\<close> a caller-defined error type (its type name, and its class when it
  implements \<^verbatim>\<open>Classifier\<close>), \<open>AttemptError\<close> the wrapper of this package,
  \<open>Canceled\<close> and \<open>DeadlineExceeded\<close> the two errors of package \<^verbatim>\<open>context\<close>.
\<close>

datatype err =
    ErrorString string
  | WrapError string err
  | CustomError string "ErrorClass option"
  | AttemptError (Attempt: int) (Step: int) (Err: err)
  | Canceled
  | DeadlineExceeded

text \<open>\<^verbatim>\<open>errors.Unwrap\<close>: the result of the \<^verbatim>\<open>Unwrap\<close> method when the type has one.\<close>

fun Unwrap :: "err \<Rightarrow> err option" where
  "Unwrap (WrapError m e) = Some e"
| "Unwrap (AttemptError a s e) = Some e"
| "Unwrap e = None"

function fullUnwrap :: "err \<Rightarrow> err" where
  "fullUnwrap e = (case Unwrap e of None \<Rightarrow> e | Some u \<Rightarrow> fullUnwrap u)"
  by pat_completeness auto
termination
proof (relation "measure size")
  show "wf (measure (size :: err \<Rightarrow> nat))" by simp
next
  fix e u :: err
  assume "Unwrap e = Some u"
  then show "(u, e) \<in> measure size" by (cases e) auto
qed

declare fullUnwrap.simps [simp del]

fun typeName :: "err \<Rightarrow> string" where
  "typeName (ErrorString m) = ''*errors.errorString''"
| "typeName (WrapError m e) = ''*fmt.wrapError''"
| "typeName (CustomError n c) = n"
| "typeName (AttemptError a s e) = ''*retryflow.AttemptError''"
| "typeName Canceled = ''*errors.errorString''"
| "typeName DeadlineExceeded = ''context.deadlineExceededError''"

text \<open>\<^verbatim>\<open>strings.ToLower\<close> on ASCII text.\<close>

definition toLower :: "string \<Rightarrow> string" where
  "toLower s = map (\<lambda>c. if (65::nat) \<le> of_char c \<and> of_char c \<le> (90::nat)
                           then char_of (of_char c + (32::nat)) else c) s"

fun NewErrorClass :: "err \<Rightarrow> ErrorClass" where
  "NewErrorClass (CustomError n (Some c)) = c"
| "NewErrorClass e = toLower (typeName e)"


section \<open>The world outside the engine\<close>

text \<open>
  Everything \<^verbatim>\<open>Retry\<close> reads or changes outside its own local variables: what
  \<^verbatim>\<open>ctx.Err()\<close> returns, the clock in nanoseconds, the numbers the global random
  source will deliver, the variables behind the output pointers, and the caller's own
  state (the variables the step closures capture). Step functions and hooks are
  arbitrary functions on the world: a step may cancel the context, take time, or count
  its calls.
\<close>

record 'u world =
  ctxErr :: "err option"
  clock :: int
  randoms :: "int list"
  heap :: "nat \<Rightarrow> val"
  user :: 'u

text \<open>
  The \<^verbatim>\<open>select\<close> at the end of an attempt blocks until the timer fires or the
  context is done. Which of the two happens, and what the rest of the program does to
  the world meanwhile, is the runtime's choice: \<open>sel d w = (True, w')\<close> when the
  \<^verbatim>\<open>ctx.Done()\<close> branch is taken.
\<close>

type_synonym 'u select = "duration \<Rightarrow> 'u world \<Rightarrow> bool \<times> 'u world"

text \<open>
  The runtime of a program with no other goroutine: a context that is already done wins
  at once, otherwise the timer fires after the sleep.
\<close>

definition sequentialSelect :: "'u select" where
  "sequentialSelect d w =
     (if ctxErr w \<noteq> None then (True, w)
      else (False, w\<lparr>clock := clock w + max 0 (sint d)\<rparr>))"

text \<open>\<^verbatim>\<open>time.Since(start)\<close>, which saturates at the ends of \<^verbatim>\<open>int64\<close>.\<close>

definition Since :: "int \<Rightarrow> 'u world \<Rightarrow> duration" where
  "Since start w = word_of_int (max (- (2 ^ 63)) (min (2 ^ 63 - 1) (clock w - start)))"

text \<open>
  \<^verbatim>\<open>rand.Int63n(n)\<close> panics unless \<open>0 < n\<close> (\<open>None\<close>); otherwise it delivers the
  next number of the source reduced into \<open>[0, n)\<close>. An exhausted list delivers 0.
\<close>

definition Int63n :: "64 word \<Rightarrow> 'u world \<Rightarrow> (64 word \<times> 'u world) option" where
  "Int63n n w =
     (if sint n \<le> 0 then None
      else case randoms w of
             [] \<Rightarrow> Some (0, w)
           | r # rs \<Rightarrow> Some (word_of_int (r mod sint n), w\<lparr>randoms := rs\<rparr>))"

text \<open>The built-in \<^verbatim>\<open>min\<close> on two durations (signed).\<close>

definition minDuration :: "duration \<Rightarrow> duration \<Rightarrow> duration" where
  "minDuration a b = (if sint a \<le> sint b then a else b)"


section \<open>Steps and pipelines\<close>

text \<open>
  What \<^verbatim>\<open>Do\<close> was given: a pointer to a variable (its address and element type), a
  typed nil pointer, or a value that is no pointer at all.
\<close>

datatype ptr = Pointer nat gotype | NilPointer gotype | NonPointer

record 'u Step =
  run :: "'u world \<Rightarrow> val \<Rightarrow> (val \<times> err option) \<times> 'u world"
  outputPtr :: "ptr option"
  checkpoint :: bool
  onFail :: "('u world \<Rightarrow> 'u world) option"

definition Exec :: "('u world \<Rightarrow> err option \<times> 'u world) \<Rightarrow> 'u Step" where
  "Exec fn =
     \<lparr>run = (\<lambda>w input. case fn w of (e, w') \<Rightarrow> ((VNil, e), w')),
      outputPtr = None, checkpoint = False, onFail = None\<rparr>"

definition mismatch :: "gotype \<Rightarrow> val \<Rightarrow> err" where
  "mismatch In input =
     ErrorString (''expected '' @ typeString In @ '' but got ''
                    @ (case typeOf input of None \<Rightarrow> ''<nil>'' | Some t \<Rightarrow> typeString t))"

text \<open>
  \<^verbatim>\<open>Chain[In, Out](fn)\<close>. The type parameter \<open>In\<close> is an argument; \<open>fn\<close> returns
  its \<^verbatim>\<open>Out\<close> already converted to \<^verbatim>\<open>any\<close>.
\<close>

definition Chain ::
  "gotype \<Rightarrow> ('u world \<Rightarrow> val \<Rightarrow> (val \<times> err option) \<times> 'u world) \<Rightarrow> 'u Step" where
  "Chain In fn =
     \<lparr>run = (\<lambda>w input.
              case typeAssert input In of
                (in', ok) \<Rightarrow>
                  if \<not> ok \<and> input \<noteq> VNil then ((VNil, Some (mismatch In input)), w)
                  else fn w in'),
      outputPtr = None, checkpoint = False, onFail = None\<rparr>"

definition Do :: "ptr option \<Rightarrow> 'u Step \<Rightarrow> 'u Step" where
  "Do p s = s\<lparr>outputPtr := p\<rparr>"

definition Checkpoint :: "'u Step \<Rightarrow> 'u Step" where
  "Checkpoint s = s\<lparr>checkpoint := True\<rparr>"

definition OnFail :: "('u world \<Rightarrow> 'u world) \<Rightarrow> 'u Step \<Rightarrow> 'u Step" where
  "OnFail fn s = s\<lparr>onFail := Some fn\<rparr>"

definition Seq :: "'u Step list \<Rightarrow> 'u Step list" where
  "Seq steps = steps"


section \<open>Options\<close>

record 'u options =
  initialBackoff :: duration
  maxBackoff :: duration
  jitter :: duration
  maxRetries :: int
  maxElapsedTime :: duration
  onRetry :: "(int \<Rightarrow> err \<Rightarrow> 'u world \<Rightarrow> 'u world) option"
  onAttemptStart :: "(int \<Rightarrow> 'u world \<Rightarrow> 'u world) option"
  onStepSuccess :: "(int \<Rightarrow> val \<Rightarrow> 'u world \<Rightarrow> 'u world) option"
  backoffStrategy :: "int \<Rightarrow> duration \<Rightarrow> duration"
  retryable :: "err \<Rightarrow> bool"
  perErrorLimits :: "ErrorClass \<rightharpoonup> int"
  errorClassifier :: "err \<Rightarrow> ErrorClass"
  rateLimiter :: "('u world \<Rightarrow> err option \<times> 'u world) option"
  resetErrorLimitOnCheckpoint :: bool

definition defaultOptions :: "'u options" where
  "defaultOptions =
     \<lparr>initialBackoff = 500 * Millisecond,
      maxBackoff = 30 * Second,
      jitter = 200 * Millisecond,
      maxRetries = 5,
      maxElapsedTime = 5 * Minute,
      onRetry = None,
      onAttemptStart = None,
      onStepSuccess = None,
      backoffStrategy = ExponentialBackoff,
      retryable = (\<lambda>e. True),
      perErrorLimits = Map.empty,
      errorClassifier = (\<lambda>e. NewErrorClass e),
      rateLimiter = None,
      resetErrorLimitOnCheckpoint = True\<rparr>"

definition WithInitialBackoff :: "duration \<Rightarrow> 'u options \<Rightarrow> 'u options" where
  "WithInitialBackoff d cfg = cfg\<lparr>initialBackoff := d\<rparr>"

definition WithMaxBackoff :: "duration \<Rightarrow> 'u options \<Rightarrow> 'u options" where
  "WithMaxBackoff d cfg = cfg\<lparr>maxBackoff := d\<rparr>"

definition WithJitter :: "duration \<Rightarrow> 'u options \<Rightarrow> 'u options" where
  "WithJitter d cfg = cfg\<lparr>jitter := d\<rparr>"

definition WithMaxRetries :: "int \<Rightarrow> 'u options \<Rightarrow> 'u options" where
  "WithMaxRetries n cfg = cfg\<lparr>maxRetries := n\<rparr>"

definition WithMaxElapsedTime :: "duration \<Rightarrow> 'u options \<Rightarrow> 'u options" where
  "WithMaxElapsedTime d cfg = cfg\<lparr>maxElapsedTime := d\<rparr>"

definition WithOnRetry :: "(int \<Rightarrow> err \<Rightarrow> 'u world \<Rightarrow> 'u world) \<Rightarrow> 'u options \<Rightarrow> 'u options" where
  "WithOnRetry f cfg = cfg\<lparr>onRetry := Some f\<rparr>"

definition WithOnAttemptStart :: "(int \<Rightarrow> 'u world \<Rightarrow> 'u world) \<Rightarrow> 'u options \<Rightarrow> 'u options" where
  "WithOnAttemptStart f cfg = cfg\<lparr>onAttemptStart := Some f\<rparr>"

definition WithOnStepSuccess ::
  "(int \<Rightarrow> val \<Rightarrow> 'u world \<Rightarrow> 'u world) \<Rightarrow> 'u options \<Rightarrow> 'u options" where
  "WithOnStepSuccess f cfg = cfg\<lparr>onStepSuccess := Some f\<rparr>"

definition WithBackoffStrategy :: "(int \<Rightarrow> duration \<Rightarrow> duration) \<Rightarrow> 'u options \<Rightarrow> 'u options" where
  "WithBackoffStrategy f cfg = cfg\<lparr>backoffStrategy := f\<rparr>"

definition WithRetryable :: "(err \<Rightarrow> bool) \<Rightarrow> 'u options \<Rightarrow> 'u options" where
  "WithRetryable f cfg = cfg\<lparr>retryable := f\<rparr>"

definition WithPerErrorLimits :: "(ErrorClass \<rightharpoonup> int) \<Rightarrow> 'u options \<Rightarrow> 'u options" where
  "WithPerErrorLimits limits cfg = cfg\<lparr>perErrorLimits := limits\<rparr>"

definition WithErrorClassifier :: "(err \<Rightarrow> ErrorClass) \<Rightarrow> 'u options \<Rightarrow> 'u options" where
  "WithErrorClassifier f cfg = cfg\<lparr>errorClassifier := f\<rparr>"

definition WithRateLimiter ::
  "('u world \<Rightarrow> err option \<times> 'u world) \<Rightarrow> 'u options \<Rightarrow> 'u options" where
  "WithRateLimiter limiter cfg = cfg\<lparr>rateLimiter := Some limiter\<rparr>"

definition WithResetErrorLimitOnCheckpoint :: "bool \<Rightarrow> 'u options \<Rightarrow> 'u options" where
  "WithResetErrorLimitOnCheckpoint b cfg = cfg\<lparr>resetErrorLimitOnCheckpoint := b\<rparr>"

text \<open>\<^verbatim>\<open>o := defaultOptions(); for _, opt := range opts { opt(&o) }\<close>\<close>

definition applyOptions :: "('u options \<Rightarrow> 'u options) list \<Rightarrow> 'u options" where
  "applyOptions opts = foldl (\<lambda>cfg opt. opt cfg) defaultOptions opts"


section \<open>The retry engine\<close>

text \<open>
  One entry of the execution log: a call of a step's \<^verbatim>\<open>run\<close>, with the value of
  \<^verbatim>\<open>currentAttempt\<close> at the call, the 1-based index of the step, the input it
  received and what it returned. The log is an observer: the engine appends to it and
  never reads it.
\<close>

record execution =
  exAttempt :: int
  exStep :: nat
  exInput :: val
  exOutput :: val
  exErr :: "err option"

text \<open>The local variables of \<^verbatim>\<open>Retry\<close>, the world, and the log.\<close>

record 'u state =
  theWorld :: "'u world"
  checkpointIndex :: nat
  currentAttempt :: int
  currentBackoff :: duration
  perErrorCounts :: "ErrorClass \<rightharpoonup> int"
  prevOutput :: val
  lastCheckpointOutput :: val
  trace :: "execution list"

text \<open>
  How a call ends: it returns an error or nil, it panics, or (in the model only) the
  bound on the number of attempts that are followed is used up.
\<close>

datatype 'u result =
    Return "err option" "'u state"
  | Panic string "'u state"
  | OutOfFuel "'u state"

fun final :: "'u result \<Rightarrow> 'u state" where
  "final (Return e st) = st"
| "final (Panic m st) = st"
| "final (OutOfFuel st) = st"

text \<open>
  How the inner \<^verbatim>\<open>for\<close> loop ends: it runs off the end of the pipeline
  (\<^verbatim>\<open>failed\<close> is false), it breaks with \<^verbatim>\<open>failed = true\<close> and the wrapped error
  in \<^verbatim>\<open>err\<close>, or it leaves \<^verbatim>\<open>Retry\<close> altogether.
\<close>

datatype 'u walked =
    Completed "'u state"
  | Broke err "'u state"
  | Ended "'u result"

definition zeroState :: "'u world \<Rightarrow> 'u state" where
  "zeroState w =
     \<lparr>theWorld = w, checkpointIndex = 0, currentAttempt = 0, currentBackoff = 0,
      perErrorCounts = Map.empty, prevOutput = VNil, lastCheckpointOutput = VNil,
      trace = []\<rparr>"

text \<open>\<^verbatim>\<open>perErrorCounts[key]\<close>: a missing key reads as 0.\<close>

definition countOf :: "(ErrorClass \<rightharpoonup> int) \<Rightarrow> ErrorClass \<Rightarrow> int" where
  "countOf m key = (case m key of None \<Rightarrow> 0 | Some n \<Rightarrow> n)"

text \<open>
  The head of an attempt (lines 50 to 62): count the attempt, reload the input of the
  first step, wait for the rate limiter, call the attempt-start hook.
\<close>

definition beginAttempt :: "'u options \<Rightarrow> 'u state \<Rightarrow> 'u result + 'u state" where
  "beginAttempt cfg st =
     (let st1 = st\<lparr>currentAttempt := currentAttempt st + 1,
                    prevOutput := lastCheckpointOutput st\<rparr>
      in case (case rateLimiter cfg of
                 None \<Rightarrow> (None, theWorld st1)
               | Some wait \<Rightarrow> wait (theWorld st1)) of
           (Some e, w) \<Rightarrow> Inl (Return (Some e) (st1\<lparr>theWorld := w\<rparr>))
         | (None, w) \<Rightarrow>
             Inr (st1\<lparr>theWorld := (case onAttemptStart cfg of
                                      None \<Rightarrow> w
                                    | Some hook \<Rightarrow> hook (currentAttempt st1) w)\<rparr>))"

text \<open>
  Running step \<open>i\<close> (0-based; lines 75 to 84): on an error the failure is wrapped with
  the attempt and the 1-based step, and the step's failure callback runs.
\<close>

definition runStep :: "'u Step \<Rightarrow> nat \<Rightarrow> 'u state \<Rightarrow> (err \<times> 'u state) + (val \<times> 'u state)" where
  "runStep step i st =
     (case run step (theWorld st) (prevOutput st) of
        ((output, e), w) \<Rightarrow>
          let st1 = st\<lparr>theWorld := w,
                         trace := trace st @ [\<lparr>exAttempt = currentAttempt st, exStep = Suc i,
                                                exInput = prevOutput st, exOutput = output,
                                                exErr = e\<rparr>]\<rparr>
          in case e of
               Some cause \<Rightarrow>
                 Inl (AttemptError (currentAttempt st) (int i + 1) cause,
                      st1\<lparr>theWorld := (case onFail step of None \<Rightarrow> w | Some fn \<Rightarrow> fn w)\<rparr>)
             | None \<Rightarrow> Inr (output, st1))"

text \<open>
  \<^verbatim>\<open>ptrVal.Elem().Set(reflect.ValueOf(output))\<close>. For a nil \<^verbatim>\<open>output\<close>,
  \<^verbatim>\<open>reflect.ValueOf\<close> is the zero \<^verbatim>\<open>Value\<close>, and \<^verbatim>\<open>Set\<close> panics on it.
\<close>

definition reflectSet :: "nat \<Rightarrow> val \<Rightarrow> 'u state \<Rightarrow> 'u result + 'u state" where
  "reflectSet a output st =
     (if output = VNil then Inl (Panic ''reflect: call of reflect.Value.Set on zero Value'' st)
      else Inr (st\<lparr>theWorld := (theWorld st)\<lparr>heap := (heap (theWorld st))(a := output)\<rparr>\<rparr>))"

text \<open>Storing the output of a successful step (lines 86 to 97).\<close>

definition storeOutput :: "'u Step \<Rightarrow> val \<Rightarrow> 'u state \<Rightarrow> 'u result + 'u state" where
  "storeOutput step output st =
     (case outputPtr step of
        None \<Rightarrow> Inr st
      | Some NonPointer \<Rightarrow>
          Inl (Return (Some (ErrorString ''outputPtr must be a non-nil pointer'')) st)
      | Some (NilPointer t) \<Rightarrow>
          Inl (Return (Some (ErrorString ''outputPtr must be a non-nil pointer'')) st)
      | Some (Pointer a outType) \<Rightarrow>
          if output \<noteq> VNil \<and> \<not> (case typeOf output of None \<Rightarrow> False
                                                  | Some t \<Rightarrow> assignableTo t outType)
          then Inl (Return (Some (ErrorString
                 (''output type mismatch: expected '' @ typeString outType @ '', got ''
                    @ (case typeOf output of None \<Rightarrow> ''<nil>'' | Some t \<Rightarrow> typeString t)))) st)
          else reflectSet a output st)"

text \<open>
  After a successful step (lines 98 to 113): pass the output on, call the step-success
  hook, and at a checkpoint move the resume point and reset the counters.
\<close>

definition afterSuccess :: "'u options \<Rightarrow> 'u Step \<Rightarrow> nat \<Rightarrow> val \<Rightarrow> 'u state \<Rightarrow> 'u state" where
  "afterSuccess cfg step i output st =
     (let st1 = st\<lparr>prevOutput := output\<rparr>;
          st2 = st1\<lparr>theWorld := (case onStepSuccess cfg of
                                    None \<Rightarrow> theWorld st1
                                  | Some hook \<Rightarrow> hook (int i + 1) output (theWorld st1))\<rparr>
      in if checkpoint step
         then st2\<lparr>checkpointIndex := i + 1,
                  currentAttempt := 0,
                  lastCheckpointOutput := output,
                  currentBackoff := initialBackoff cfg,
                  perErrorCounts := (if resetErrorLimitOnCheckpoint cfg then Map.empty
                                     else perErrorCounts st2)\<rparr>
         else st2)"

text \<open>The inner loop \<^verbatim>\<open>for i := startIdx; i < len(steps); i++\<close> (lines 68 to 114).\<close>

function walk :: "'u options \<Rightarrow> 'u Step list \<Rightarrow> nat \<Rightarrow> 'u state \<Rightarrow> 'u walked" where
  "walk cfg steps i st =
     (if i < length steps then
        (case ctxErr (theWorld st) of
           Some e \<Rightarrow> Ended (Return (Some e) st)
         | None \<Rightarrow>
             (case runStep (steps ! i) i st of
                Inl (err, st1) \<Rightarrow> Broke err st1
              | Inr (output, st1) \<Rightarrow>
                  (case storeOutput (steps ! i) output st1 of
                     Inl r \<Rightarrow> Ended r
                   | Inr st2 \<Rightarrow>
                       walk cfg steps (Suc i) (afterSuccess cfg (steps ! i) i output st2))))
      else Completed st)"
  by pat_completeness auto
termination
  by (relation "measure (\<lambda>(cfg, steps, i, st). length steps - i)") auto

declare walk.simps [simp del]

text \<open>
  The sleep of lines 147 to 154: the clamped backoff, perturbed by the jitter and floored
  at 10ms when a jitter is configured.
\<close>

definition jitterSleep :: "'u options \<Rightarrow> duration \<Rightarrow> 'u state \<Rightarrow> 'u result + (duration \<times> 'u state)" where
  "jitterSleep cfg next st =
     (if 0 < sint (jitter cfg) then
        (case Int63n (jitter cfg * 2) (theWorld st) of
           None \<Rightarrow> Inl (Panic ''invalid argument to Int63n'' st)
         | Some (r, w) \<Rightarrow>
             let j = r - jitter cfg;
                 sleep = next + j
             in Inr (if sint sleep < sint (10 * Millisecond) then 10 * Millisecond else sleep,
                     st\<lparr>theWorld := w\<rparr>))
      else Inr (next, st))"

text \<open>
  The backoff (lines 144 to 162): the next delay from the strategy, clamped to the
  maximum, the sleep, and the \<^verbatim>\<open>select\<close> between the timer and the context.
  \<open>Inl\<close> ends the call, \<open>Inr\<close> goes round the outer loop.
\<close>

definition backoff :: "'u select \<Rightarrow> 'u options \<Rightarrow> 'u state \<Rightarrow> 'u result + 'u state" where
  "backoff sel cfg st =
     (let next = minDuration (backoffStrategy cfg (currentAttempt st) (currentBackoff st))
                             (maxBackoff cfg)
      in case jitterSleep cfg next st of
           Inl r \<Rightarrow> Inl r
         | Inr (sleep, st1) \<Rightarrow>
             (case sel sleep (theWorld st1) of
                (True, w) \<Rightarrow> Inl (Return (ctxErr w) (st1\<lparr>theWorld := w\<rparr>))
              | (False, w) \<Rightarrow> Inr (st1\<lparr>theWorld := w, currentBackoff := next\<rparr>)))"

text \<open>
  After a failed walk (lines 120 to 162): the retryability predicate, the per-class
  limit, the retry hook, the two ceilings, then the backoff.
\<close>

definition afterFailure ::
  "'u select \<Rightarrow> 'u options \<Rightarrow> int \<Rightarrow> err \<Rightarrow> 'u state \<Rightarrow> 'u result + 'u state" where
  "afterFailure sel cfg start err st =
     (let unwrappedErr = fullUnwrap err in
      if \<not> retryable cfg unwrappedErr then Inl (Return (Some err) st)
      else
        let key = errorClassifier cfg unwrappedErr;
            st1 = st\<lparr>perErrorCounts := (perErrorCounts st)(key \<mapsto> countOf (perErrorCounts st) key + 1)\<rparr>
        in if (case perErrorLimits cfg key of
                 None \<Rightarrow> False
               | Some limit \<Rightarrow> countOf (perErrorCounts st1) key > limit)
           then Inl (Return (Some err) st1)
           else
             let st2 = st1\<lparr>theWorld := (case onRetry cfg of
                                          None \<Rightarrow> theWorld st1
                                        | Some hook \<Rightarrow> hook (currentAttempt st1) err (theWorld st1))\<rparr>
             in if maxRetries cfg \<ge> 0 \<and> currentAttempt st2 \<ge> maxRetries cfg
                then Inl (Return (Some err) st2)
                else if 0 < sint (maxElapsedTime cfg)
                        \<and> sint (maxElapsedTime cfg) \<le> sint (Since start (theWorld st2))
                then Inl (Return (Some err) st2)
                else backoff sel cfg st2)"

text \<open>
  The outer loop \<^verbatim>\<open>for { ... }\<close> (lines 49 to 163). It has no bound of its own, so
  the model follows at most \<open>fuel\<close> attempts and answers \<open>OutOfFuel\<close> with the state
  reached when the call is still running after them.
\<close>

fun Retry_loop ::
  "'u select \<Rightarrow> 'u options \<Rightarrow> 'u Step list \<Rightarrow> int \<Rightarrow> nat \<Rightarrow> 'u state \<Rightarrow> 'u result" where
  "Retry_loop sel cfg steps start 0 st = OutOfFuel st"
| "Retry_loop sel cfg steps start (Suc fuel) st =
     (case beginAttempt cfg st of
        Inl r \<Rightarrow> r
      | Inr st1 \<Rightarrow>
          (case walk cfg steps (checkpointIndex st1) st1 of
             Ended r \<Rightarrow> r
           | Completed st2 \<Rightarrow> Return None st2
           | Broke err st2 \<Rightarrow>
               (case afterFailure sel cfg start err st2 of
                  Inl r \<Rightarrow> r
                | Inr st3 \<Rightarrow> Retry_loop sel cfg steps start fuel st3)))"

text \<open>
  \<^verbatim>\<open>Retry(ctx, steps, opts...)\<close> in the world \<open>w\<close>, under the runtime \<open>sel\<close>.
  The returns before line 37 report the local variables at their zero values.
\<close>

definition Retry ::
  "'u select \<Rightarrow> nat \<Rightarrow> 'u world \<Rightarrow> 'u Step list \<Rightarrow> ('u options \<Rightarrow> 'u options) list \<Rightarrow> 'u result" where
  "Retry sel fuel w steps opts =
     (if length steps = 0 then Return None (zeroState w)
      else
        let cfg = applyOptions opts in
        if sint (initialBackoff cfg) \<le> 0
        then Return (Some (ErrorString ''initialBackoff must be positive'')) (zeroState w)
        else if sint (maxBackoff cfg) < sint (initialBackoff cfg)
        then Return (Some (ErrorString ''maxBackoff must be >= initialBackoff'')) (zeroState w)
        else if sint (jitter cfg) < 0
        then Return (Some (ErrorString ''jitter must be non-negative'')) (zeroState w)
        else if maxRetries cfg < 0 \<and> maxElapsedTime cfg = 0
        then Return (Some (ErrorString ''infinite retry without maxElapsedTime is dangerous''))
               (zeroState w)
        else Retry_loop sel cfg steps (clock w) fuel
               ((zeroState w)\<lparr>currentBackoff := initialBackoff cfg\<rparr>))"




section \<open>Observations on a finished call\<close>

text \<open>Two states that agree on every local variable of \<^verbatim>\<open>Retry\<close>.\<close>

definition sameLocals :: "'u state \<Rightarrow> 'u state \<Rightarrow> bool" where
  "sameLocals st st' \<longleftrightarrow>
     checkpointIndex st' = checkpointIndex st \<and> currentAttempt st' = currentAttempt st
     \<and> currentBackoff st' = currentBackoff st \<and> perErrorCounts st' = perErrorCounts st
     \<and> prevOutput st' = prevOutput st \<and> lastCheckpointOutput st' = lastCheckpointOutput st"

fun returned :: "'u result \<Rightarrow> err option option" where
  "returned (Return e st) = Some e"
| "returned (Panic m st) = None"
| "returned (OutOfFuel st) = None"

fun panicked :: "'u result \<Rightarrow> string option" where
  "panicked (Panic m st) = Some m"
| "panicked (Return e st) = None"
| "panicked (OutOfFuel st) = None"

text \<open>How often the log records a call of step \<open>k\<close> (1-based).\<close>

definition executions :: "nat \<Rightarrow> execution list \<Rightarrow> nat" where
  "executions k tr = length (filter (\<lambda>e. exStep e = k) tr)"


text \<open>
  The attempt number the specification gives an execution, read off the log alone: the
  number of walks begun since the last checkpoint reset. A walk begins with the first
  execution of the call and with every execution that follows a failed one; a successful
  execution of a checkpoint step resets the count to 0. The pair holds the count so far
  and whether the next execution begins a walk.
\<close>

definition attemptOf :: "int \<times> bool \<Rightarrow> int" where
  "attemptOf s = (if snd s then fst s + 1 else fst s)"

definition advance :: "'u Step list \<Rightarrow> int \<times> bool \<Rightarrow> execution \<Rightarrow> int \<times> bool" where
  "advance steps s e =
     (case exErr e of
        Some cause \<Rightarrow> (attemptOf s, True)
      | None \<Rightarrow> (if checkpoint (steps ! (exStep e - 1)) then 0 else attemptOf s, False))"

fun numbered :: "'u Step list \<Rightarrow> int \<times> bool \<Rightarrow> execution list \<Rightarrow> bool" where
  "numbered steps s [] = True"
| "numbered steps s (e # es) = (exAttempt e = attemptOf s \<and> numbered steps (advance steps s e) es)"



text \<open>
  What the specification says of checkpoints, read off the log alone. An execution
  passes a checkpoint when it is a successful execution of a checkpoint step of the
  pipeline (the step an execution names is 1-based).
\<close>

definition passed :: "'u Step list \<Rightarrow> execution \<Rightarrow> bool" where
  "passed steps e \<longleftrightarrow> exErr e = None \<and> checkpoint (steps ! (exStep e - 1))"

text \<open>
  An execution \<open>e'\<close> is in order behind \<open>e\<close> when it runs a later step, and, if that is
  the step right after the one of \<open>e\<close>, receives what \<open>e\<close> produced.
\<close>

definition behind :: "execution \<Rightarrow> execution \<Rightarrow> bool" where
  "behind e e' \<longleftrightarrow>
     exStep e < exStep e' \<and> (exStep e' = Suc (exStep e) \<longrightarrow> exInput e' = exOutput e)"

text \<open>
  A log is guarded by its checkpoints when every execution is in order behind every
  execution before it that passed a checkpoint.
\<close>

fun guarded :: "'u Step list \<Rightarrow> execution list \<Rightarrow> bool" where
  "guarded steps [] = True"
| "guarded steps (e # es) \<longleftrightarrow>
     (passed steps e \<longrightarrow> (\<forall>e' \<in> set es. behind e e')) \<and> guarded steps es"

text \<open>
  Where an attempt resumes. The pair holds the last checkpoint passed so far, as its
  step and output (step 0 and nil before any), and whether the next execution begins a
  walk: the first of the call does, and so does every execution that follows a failed
  one. The first execution of a walk runs the step after the checkpoint on its output.
\<close>

definition resume ::
  "'u Step list \<Rightarrow> (nat \<times> val) \<times> bool \<Rightarrow> execution \<Rightarrow> (nat \<times> val) \<times> bool" where
  "resume steps s e =
     (if passed steps e then (exStep e, exOutput e) else fst s, exErr e \<noteq> None)"

fun resumes :: "'u Step list \<Rightarrow> (nat \<times> val) \<times> bool \<Rightarrow> execution list \<Rightarrow> bool" where
  "resumes steps s [] = True"
| "resumes steps s (e # es) \<longleftrightarrow>
     (snd s \<longrightarrow> exStep e = Suc (fst (fst s)) \<and> exInput e = snd (fst s))
     \<and> resumes steps (resume steps s e) es"


section \<open>Concrete worlds and steps for evaluation\<close>

text \<open>
  A world at time 0 with a live context, an exhausted random source and every variable
  nil; the caller's state is given.
\<close>

definition world0 :: "'u \<Rightarrow> 'u world" where
  "world0 u = \<lparr>ctxErr = None, clock = 0, randoms = [], heap = (\<lambda>a. VNil), user = u\<rparr>"

text \<open>A step that returns the value \<open>v\<close> and no error.\<close>

definition produces :: "val \<Rightarrow> 'u Step" where
  "produces v = Chain TAny (\<lambda>w input. ((v, None), w))"

text \<open>The step of the tests that always fails: \<^verbatim>\<open>return 0, errors.New(msg)\<close>.\<close>

definition alwaysFails :: "string \<Rightarrow> 'u Step" where
  "alwaysFails msg = Chain TAny (\<lambda>w input. ((VInt 0, Some (ErrorString msg)), w))"

text \<open>The same step when it takes \<open>d\<close> nanoseconds to fail.\<close>

definition slowFails :: "int \<Rightarrow> string \<Rightarrow> 'u Step" where
  "slowFails d msg =
     Chain TAny (\<lambda>w input. ((VInt 0, Some (ErrorString msg)), w\<lparr>clock := clock w + d\<rparr>))"

text \<open>
  The step of \<^verbatim>\<open>TestContextCancellation\<close>: \<^verbatim>\<open>cancel(); return 0, errors.New(msg)\<close>.
\<close>

definition cancelsAndFails :: "string \<Rightarrow> 'u Step" where
  "cancelsAndFails msg =
     Chain TAny (\<lambda>w input. ((VInt 0, Some (ErrorString msg)), w\<lparr>ctxErr := Some Canceled\<rparr>))"

text \<open>A step whose function takes a string and passes it on.\<close>

definition passesString :: "'u Step" where
  "passesString = Chain TString (\<lambda>w input. ((input, None), w))"

text \<open>
  A checkpoint followed by a step that always fails, and the log of a call on them with
  at most two attempts after the checkpoint.
\<close>

definition checkpointThenFailure :: "unit Step list" where
  "checkpointThenFailure = [Checkpoint (produces (VInt 1)), alwaysFails ''fail'']"

definition checkpointLog :: "execution list" where
  "checkpointLog
     = trace (final (Retry sequentialSelect 3 (world0 ()) checkpointThenFailure
                       [WithMaxRetries 2]))"


section \<open>The Fibonacci backoff\<close>

lemma fib_step: "0 < n \<Longrightarrow> fib (Suc n) = fib (n - 1) + fib n"
  by (cases n) simp_all

lemma fibLoop_fib:
  "0 < n \<Longrightarrow> int n \<le> attempt \<Longrightarrow> d = nat attempt - n \<Longrightarrow>
   fibLoop (int n + 1) attempt (of_nat (fib (n - 1))) (of_nat (fib n))
     = of_nat (fib (nat attempt))"
proof (induction d arbitrary: n)
  case 0
  then have a: "attempt = int n" by simp
  show ?case unfolding a by (subst fibLoop.simps) simp
next
  case (Suc d)
  then have lt: "int n + 1 \<le> attempt" by simp
  have "fibLoop (int n + 1) attempt (of_nat (fib (n - 1))) (of_nat (fib n))
      = fibLoop (int (Suc n) + 1) attempt (of_nat (fib (Suc n - 1))) (of_nat (fib (Suc n)))"
    using lt Suc.prems(1) by (subst fibLoop.simps) (simp add: fib_step add.commute)
  also have "\<dots> = of_nat (fib (nat attempt))"
    using Suc.prems lt by (intro Suc.IH) auto
  finally show ?case .
qed

text \<open>On \<^verbatim>\<open>int64\<close> the result is the product modulo \<open>2 ^ 64\<close>.\<close>

lemma FibonacciBackoff_word:
  assumes "1 < attempt"
  shows "FibonacciBackoff attempt prev = word_of_int (500000000 * int (fib (nat attempt)))"
proof -
  have "fibLoop 3 attempt 1 1 = of_nat (fib (nat attempt))"
    using fibLoop_fib [of 2 attempt "nat attempt - 2"] assms
    by (simp add: numeral_2_eq_2)
  then show ?thesis using assms
    by (simp add: FibonacciBackoff_def Millisecond_def mult.commute)
qed

lemma fibIter_fib: "fibIter n (int (fib k)) (int (fib (Suc k))) = int (fib (n + k))"
proof (induction n arbitrary: k)
  case 0
  show ?case by simp
next
  case (Suc n)
  have "fibIter (Suc n) (int (fib k)) (int (fib (Suc k)))
        = fibIter n (int (fib (Suc k))) (int (fib (Suc (Suc k))))"
    by simp
  also have "\<dots> = int (fib (n + Suc k))" by (rule Suc.IH)
  finally show ?case by simp
qed

lemma fibIter_numeral: "fibIter (numeral k) a b = fibIter (pred_numeral k) b (a + b)"
  by (simp add: numeral_eq_Suc)

lemma fib_50: "int (fib 50) = 12586269025"
proof -
  have "fibIter 50 0 1 = 12586269025" by (simp add: fibIter_numeral)
  then show ?thesis using fibIter_fib [of 50 0] by simp
qed

lemma fib_51: "int (fib 51) = 20365011074"
proof -
  have "fibIter 51 0 1 = 20365011074" by (simp add: fibIter_numeral)
  then show ?thesis using fibIter_fib [of 51 0] by simp
qed

lemma fib_10: "int (fib 10) = 55"
proof -
  have "fibIter 10 0 1 = 55" by (simp add: fibIter_numeral)
  then show ?thesis using fibIter_fib [of 10 0] by simp
qed

lemma fib_mono_Suc: "fib n \<le> fib (Suc n)"
  by (cases n) simp_all

lemma fib_mono: "m \<le> n \<Longrightarrow> fib m \<le> fib n"
proof (induction n)
  case 0
  then show ?case by simp
next
  case (Suc n)
  show ?case
  proof (cases "m = Suc n")
    case True
    then show ?thesis by simp
  next
    case False
    then have "fib m \<le> fib n" using Suc by simp
    then show ?thesis using fib_mono_Suc [of n] by linarith
  qed
qed

text \<open>
  C10, as stated, fails: at attempt 51 the product \<open>500ms \<times> fib 51\<close> no longer fits an
  \<^verbatim>\<open>int64\<close>, and \<^verbatim>\<open>FibonacciBackoff\<close> returns a negative duration.
\<close>

theorem C10_counterexample:
  "sint (FibonacciBackoff 51 0) = - 8264238536709551616
   \<and> 500000000 * int (fib 51) = 10182505537000000000"
proof -
  have "FibonacciBackoff 51 0 = word_of_int (500000000 * int (fib (nat 51)))"
    by (rule FibonacciBackoff_word) simp
  then have "FibonacciBackoff 51 0 = word_of_int (500000000 * int (fib 51))" by simp
  then show ?thesis unfolding fib_51 by simp
qed

text \<open>
  C10, amended: for every attempt number up to 50 and every previous delay,
  \<^verbatim>\<open>FibonacciBackoff\<close> returns 500ms when the attempt is at most 1 and 500ms times
  \<open>fib attempt\<close> otherwise, whatever the previous delay (from attempt 51 on the product
  wraps around modulo \<open>2 ^ 64\<close>).
\<close>

theorem C10_FibonacciBackoff_exact:
  assumes "attempt \<le> 50"
  shows "sint (FibonacciBackoff attempt prev)
          = 500000000 * (if attempt \<le> 1 then 1 else int (fib (nat attempt)))"
proof (cases "attempt \<le> 1")
  case True
  then show ?thesis by (simp add: FibonacciBackoff_def Millisecond_def)
next
  case False
  then have gt: "1 < attempt" by simp
  define m where "m = 500000000 * int (fib (nat attempt))"
  have "fib (nat attempt) \<le> fib 50" using assms by (intro fib_mono) simp
  then have "int (fib (nat attempt)) \<le> 12586269025" using fib_50 by linarith
  then have b: "m \<le> 6293134512500000000" and nn: "0 \<le> m"
    by (simp_all add: m_def)
  have "sint (word_of_int m :: 64 word) = m"
    using b nn by (simp add: signed_of_int signed_take_bit_int_eq_self)
  moreover have "FibonacciBackoff attempt prev = word_of_int m"
    unfolding m_def using gt by (rule FibonacciBackoff_word)
  ultimately show ?thesis using gt by (simp add: m_def)
qed

theorem C10_FibonacciBackoff_exact_witness:
  "(10::int) \<le> 50 \<and> sint (FibonacciBackoff 10 7) = 27500000000"
proof -
  have "int (fib (nat 10)) = 55" using fib_10 by simp
  then show ?thesis using C10_FibonacciBackoff_exact [of 10 7] by simp
qed


section \<open>Basic facts about the phases of an attempt\<close>

lemma fullUnwrap_AttemptError [simp]: "fullUnwrap (AttemptError a s e) = fullUnwrap e"
  by (subst fullUnwrap.simps) simp

lemma beginAttempt_Inr:
  assumes "beginAttempt cfg st = Inr st1"
  shows "currentAttempt st1 = currentAttempt st + 1"
    and "prevOutput st1 = lastCheckpointOutput st"
    and "lastCheckpointOutput st1 = lastCheckpointOutput st"
    and "checkpointIndex st1 = checkpointIndex st"
    and "currentBackoff st1 = currentBackoff st"
    and "perErrorCounts st1 = perErrorCounts st"
    and "trace st1 = trace st"
  using assms
  by (auto simp: beginAttempt_def Let_def split: option.splits prod.splits)

lemma runStep_Inl:
  assumes "runStep step i st = Inl (err, st1)"
  shows "\<exists>out cause.
           err = AttemptError (currentAttempt st) (int i + 1) cause
         \<and> trace st1 = trace st @ [\<lparr>exAttempt = currentAttempt st, exStep = Suc i,
                                       exInput = prevOutput st, exOutput = out,
                                       exErr = Some cause\<rparr>]
         \<and> sameLocals st st1
         \<and> fst (run step (theWorld st) (prevOutput st)) = (out, Some cause)"
  using assms
  by (auto simp: runStep_def Let_def sameLocals_def split: option.splits prod.splits)

lemma runStep_Inr:
  assumes "runStep step i st = Inr (out, st1)"
  shows "trace st1 = trace st @ [\<lparr>exAttempt = currentAttempt st, exStep = Suc i,
                                   exInput = prevOutput st, exOutput = out,
                                   exErr = None\<rparr>]"
    and "sameLocals st st1"
  using assms
  by (auto simp: runStep_def Let_def sameLocals_def split: option.splits prod.splits)

lemma storeOutput_Inr:
  assumes "storeOutput step out st = Inr st1"
  shows "trace st1 = trace st" and "sameLocals st st1"
  using assms
  by (auto simp: storeOutput_def reflectSet_def sameLocals_def
           split: option.splits ptr.splits if_splits)

lemma afterSuccess_fields [simp]:
  "trace (afterSuccess cfg step i out st) = trace st"
  "prevOutput (afterSuccess cfg step i out st) = out"
  "currentAttempt (afterSuccess cfg step i out st)
     = (if checkpoint step then 0 else currentAttempt st)"
  "checkpointIndex (afterSuccess cfg step i out st)
     = (if checkpoint step then Suc i else checkpointIndex st)"
  "lastCheckpointOutput (afterSuccess cfg step i out st)
     = (if checkpoint step then out else lastCheckpointOutput st)"
  by (simp_all add: afterSuccess_def Let_def)

text \<open>One round of the inner loop, case by case.\<close>

lemma walk_end: "\<not> i < length steps \<Longrightarrow> walk cfg steps i st = Completed st"
  by (subst walk.simps) simp

lemma walk_cancelled:
  "i < length steps \<Longrightarrow> ctxErr (theWorld st) = Some c \<Longrightarrow>
   walk cfg steps i st = Ended (Return (Some c) st)"
  by (subst walk.simps) simp

lemma walk_fail:
  "i < length steps \<Longrightarrow> ctxErr (theWorld st) = None \<Longrightarrow>
   runStep (steps ! i) i st = Inl (err, st1) \<Longrightarrow>
   walk cfg steps i st = Broke err st1"
  by (subst walk.simps) simp

lemma walk_store_fail:
  "i < length steps \<Longrightarrow> ctxErr (theWorld st) = None \<Longrightarrow>
   runStep (steps ! i) i st = Inr (out, st1) \<Longrightarrow>
   storeOutput (steps ! i) out st1 = Inl r \<Longrightarrow>
   walk cfg steps i st = Ended r"
  by (subst walk.simps) simp

lemma walk_next:
  "i < length steps \<Longrightarrow> ctxErr (theWorld st) = None \<Longrightarrow>
   runStep (steps ! i) i st = Inr (out, st1) \<Longrightarrow>
   storeOutput (steps ! i) out st1 = Inr st2 \<Longrightarrow>
   walk cfg steps i st = walk cfg steps (Suc i) (afterSuccess cfg (steps ! i) i out st2)"
  by (subst walk.simps) simp

text \<open>
  A walk that breaks: the steps from the start to the failing one ran once each, in
  order, all but the last without error; the error is the failing step's cause wrapped
  with the 1-based step and the value \<^verbatim>\<open>currentAttempt\<close> has at that moment, which is
  0 once a checkpoint has been passed in this walk.
\<close>

lemma walk_Broke:
  assumes "walk cfg steps i st = Broke err st'"
  shows "\<exists>k cause evs.
           i \<le> k \<and> k < length steps
         \<and> err = AttemptError (if \<exists>j\<in>{i..<k}. checkpoint (steps ! j) then 0
                                else currentAttempt st) (int k + 1) cause
         \<and> trace st' = trace st @ evs
         \<and> map exStep evs = map Suc [i..<Suc k]
         \<and> exErr (last evs) = Some cause
         \<and> exAttempt (last evs) = Attempt err
         \<and> (\<exists>w v. snd (fst (run (steps ! k) w v)) = Some cause)
         \<and> (\<forall>e\<in>set (butlast evs). exErr e = None)"
  using assms
proof (induction cfg steps i st rule: walk.induct)
  case (1 cfg steps i st)
  from "1.prems" have lt: "i < length steps"
    by (cases "i < length steps") (simp_all add: walk_end)
  from "1.prems" lt have live: "ctxErr (theWorld st) = None"
    by (cases "ctxErr (theWorld st)") (simp_all add: walk_cancelled)
  show ?case
  proof (cases "runStep (steps ! i) i st")
    case (Inl p)
    obtain e st1 where p: "p = (e, st1)" by (cases p)
    with Inl have rs: "runStep (steps ! i) i st = Inl (e, st1)" by simp
    from walk_fail [OF lt live rs] "1.prems" have eq: "err = e" "st' = st1" by simp_all
    from runStep_Inl [OF rs] obtain out cause where
      e: "e = AttemptError (currentAttempt st) (int i + 1) cause"
      and tr: "trace st1 = trace st @ [\<lparr>exAttempt = currentAttempt st, exStep = Suc i,
                                       exInput = prevOutput st, exOutput = out,
                                       exErr = Some cause\<rparr>]"
      and rn: "fst (run (steps ! i) (theWorld st) (prevOutput st)) = (out, Some cause)"
      by blast
    from rn have rn': "\<exists>w v. snd (fst (run (steps ! i) w v)) = Some cause"
      by (metis snd_conv)
    show ?thesis
      apply (rule exI [of _ i], rule exI [of _ cause])
      apply (rule exI [of _ "[\<lparr>exAttempt = currentAttempt st, exStep = Suc i,
                                           exInput = prevOutput st, exOutput = out,
                                           exErr = Some cause\<rparr>]"])
      using lt eq e tr rn' by simp
  next
    case (Inr p)
    obtain out st1 where p: "p = (out, st1)" by (cases p)
    with Inr have rs: "runStep (steps ! i) i st = Inr (out, st1)" by simp
    let ?ev = "\<lparr>exAttempt = currentAttempt st, exStep = Suc i,
                exInput = prevOutput st, exOutput = out, exErr = None\<rparr>"
    from runStep_Inr [OF rs] have tr1: "trace st1 = trace st @ [?ev]"
      and loc1: "sameLocals st st1" by simp_all
    show ?thesis
    proof (cases "storeOutput (steps ! i) out st1")
      case (Inl r)
      from walk_store_fail [OF lt live rs Inl] "1.prems" show ?thesis by simp
    next
      case st2: (Inr st2)
      from storeOutput_Inr [OF st2] have tr2: "trace st2 = trace st1"
        and loc2: "sameLocals st1 st2" by simp_all
      let ?st3 = "afterSuccess cfg (steps ! i) i out st2"
      from walk_next [OF lt live rs st2] "1.prems"
      have w: "walk cfg steps (Suc i) ?st3 = Broke err st'" by simp
      from "1.IH" [OF lt live Inr p [symmetric] st2 w]
      obtain k cause evs where
        k: "Suc i \<le> k" "k < length steps"
        and err: "err = AttemptError (if \<exists>j\<in>{Suc i..<k}. checkpoint (steps ! j) then 0
                                else currentAttempt ?st3) (int k + 1) cause"
        and tr: "trace st' = trace ?st3 @ evs"
        and steps: "map exStep evs = map Suc [Suc i..<Suc k]"
        and last: "exErr (last evs) = Some cause"
        and lastA: "exAttempt (last evs) = Attempt err"
        and rn: "\<exists>w v. snd (fst (run (steps ! k) w v)) = Some cause"
        and others: "\<forall>e\<in>set (butlast evs). exErr e = None"
        by blast
      from steps k have ne: "evs \<noteq> []" by auto
      have split: "(\<exists>j\<in>{i..<k}. checkpoint (steps ! j))
                 \<longleftrightarrow> checkpoint (steps ! i) \<or> (\<exists>j\<in>{Suc i..<k}. checkpoint (steps ! j))"
      proof -
        have "{i..<k} = insert i {Suc i..<k}" using k by auto
        then show ?thesis by simp
      qed
      have att: "currentAttempt ?st3 = (if checkpoint (steps ! i) then 0 else currentAttempt st)"
        using loc1 loc2 by (simp add: sameLocals_def)
      have upt: "[i..<Suc k] = i # [Suc i..<Suc k]" using k by (simp add: upt_conv_Cons)
      have tr': "trace st' = trace st @ (?ev # evs)" using tr tr1 tr2 by simp
      have err': "err = AttemptError (if \<exists>j\<in>{i..<k}. checkpoint (steps ! j) then 0
                                else currentAttempt st) (int k + 1) cause"
        using err att split by auto
      show ?thesis
        apply (rule exI [of _ k], rule exI [of _ cause], rule exI [of _ "?ev # evs"])
        using k err' tr' steps last lastA rn others ne upt
        by simp
    qed
  qed
qed


section \<open>Non-retryable failures (C4)\<close>

lemma executions_upt:
  assumes "map exStep evs = map Suc [i..<Suc k]" and "i \<le> k"
  shows "executions (Suc k) evs = 1"
proof -
  have "executions (Suc k) evs = length (filter (\<lambda>s. s = Suc k) (map exStep evs))"
    by (simp add: executions_def filter_map comp_def)
  also have "\<dots> = length (filter (\<lambda>s. s = Suc k) (map Suc [i..<Suc k]))"
    using assms by simp
  also have "\<dots> = length (filter (\<lambda>j. j = k) [i..<Suc k])"
    by (simp add: filter_map comp_def)
  also have "\<dots> = 1" using assms(2) by (simp add: filter_empty_conv [THEN iffD2])
  finally show ?thesis .
qed

text \<open>
  C4: when an attempt's walk fails at a step and the retryability predicate rejects the
  fully unwrapped root cause, the call returns the wrapped error at once, in the state
  the failure left: no per-class counter is incremented, no backoff is computed, nothing
  is slept, whatever the remaining fuel or attempt budget. The failing step ran exactly
  once in this attempt, as its last execution.
\<close>

theorem C4_nonretryable_terminates:
  assumes "beginAttempt cfg st = Inr st1"
    and "walk cfg steps (checkpointIndex st1) st1 = Broke err st2"
    and "\<not> retryable cfg (fullUnwrap err)"
  shows "Retry_loop sel cfg steps start (Suc fuel) st = Return (Some err) st2
       \<and> (\<exists>k cause. err = AttemptError (Attempt err) (int k) cause
             \<and> Unwrap err = Some cause
             \<and> \<not> retryable cfg (fullUnwrap cause)
             \<and> executions k (drop (length (trace st)) (trace st2)) = 1
             \<and> exStep (last (trace st2)) = k
             \<and> exErr (last (trace st2)) = Some cause)"
proof -
  have ret: "Retry_loop sel cfg steps start (Suc fuel) st = Return (Some err) st2"
    using assms by (simp add: afterFailure_def)
  from walk_Broke [OF assms(2)] obtain k cause evs where
    k: "checkpointIndex st1 \<le> k" "k < length steps"
    and err: "err = AttemptError (if \<exists>j\<in>{checkpointIndex st1..<k}. checkpoint (steps ! j) then 0
                                else currentAttempt st1) (int k + 1) cause"
    and tr: "trace st2 = trace st1 @ evs"
    and steps: "map exStep evs = map Suc [checkpointIndex st1..<Suc k]"
    and last: "exErr (last evs) = Some cause"
    by blast
  from steps k have ne: "evs \<noteq> []" by auto
  have tr1: "trace st1 = trace st" using beginAttempt_Inr(7) [OF assms(1)] .
  have lastStep: "exStep (last evs) = Suc k"
  proof -
    have "exStep (last evs) = last (map exStep evs)" using ne by (simp add: last_map)
    also have "\<dots> = Suc k" using steps k by (simp add: last_map)
    finally show ?thesis .
  qed
  have "err = AttemptError (Attempt err) (int (Suc k)) cause"
    using err by simp
  moreover have "Unwrap err = Some cause" using err by simp
  moreover have "\<not> retryable cfg (fullUnwrap cause)" using assms(3) err by simp
  moreover have "executions (Suc k) (drop (length (trace st)) (trace st2)) = 1"
    using executions_upt [OF steps k(1)] tr tr1 by simp
  moreover have "exStep (last (trace st2)) = Suc k" using tr ne lastStep by simp
  moreover have "exErr (last (trace st2)) = Some cause" using tr ne last by simp
  ultimately show ?thesis using ret by blast
qed


text \<open>The definitions a concrete call unfolds to.\<close>

lemmas eval_defs = applyOptions_def defaultOptions_def zeroState_def
  beginAttempt_def runStep_def storeOutput_def reflectSet_def afterSuccess_def
  world0_def Exec_def Chain_def Do_def Checkpoint_def OnFail_def
  Millisecond_def Second_def Minute_def typeAssert_def assignableTo_def mismatch_def
  produces_def alwaysFails_def slowFails_def cancelsAndFails_def passesString_def
  WithInitialBackoff_def WithMaxBackoff_def WithJitter_def WithMaxRetries_def
  WithMaxElapsedTime_def WithRetryable_def WithPerErrorLimits_def WithErrorClassifier_def

text \<open>
  C4 at a concrete call: one step that always fails, a predicate that rejects everything.
\<close>

theorem C4_nonretryable_terminates_witness:
  "Retry_loop sequentialSelect (applyOptions [WithRetryable (\<lambda>e. False)])
     [alwaysFails ''fail''] 0 (Suc 0) (zeroState (world0 ()))
   = Return (Some (AttemptError 1 1 (ErrorString ''fail'')))
       ((zeroState (world0 ()))\<lparr>currentAttempt := 1,
          trace := [\<lparr>exAttempt = 1, exStep = 1, exInput = VNil, exOutput = VInt 0,
                     exErr = Some (ErrorString ''fail'')\<rparr>]\<rparr>)"
proof -
  let ?cfg = "applyOptions [WithRetryable (\<lambda>e. False)] :: unit options"
  let ?st = "zeroState (world0 ())"
  let ?st1 = "?st\<lparr>currentAttempt := 1\<rparr>"
  let ?err = "AttemptError 1 1 (ErrorString ''fail'')"
  let ?st2 = "?st\<lparr>currentAttempt := 1,
          trace := [\<lparr>exAttempt = 1, exStep = 1, exInput = VNil, exOutput = VInt 0,
                     exErr = Some (ErrorString ''fail'')\<rparr>]\<rparr>"
  have h1: "beginAttempt ?cfg ?st = Inr ?st1"
    by (simp add: eval_defs)
  have h2: "walk ?cfg [alwaysFails ''fail''] (checkpointIndex ?st1) ?st1 = Broke ?err ?st2"
    by (simp add: eval_defs walk.simps)
  have h3: "\<not> retryable ?cfg (fullUnwrap ?err)"
    by (simp add: eval_defs)
  from C4_nonretryable_terminates [OF h1 h2 h3, of sequentialSelect 0 0]
  show ?thesis by simp
qed


section \<open>Type mismatches between chained steps (C5)\<close>

text \<open>
  C5 fails on the code: a step whose input has the wrong type is not fatal. Under the
  default options the mismatch is retried like a business error: the step is run on
  each of the five attempts, and only then is the error returned, wrapped in an
  \<open>AttemptError\<close>.
\<close>

theorem C5_type_mismatch_retried:
  "returned (Retry sequentialSelect 5 (world0 ()) [produces (VInt 1), passesString] [])
     = Some (Some (AttemptError 5 2 (ErrorString ''expected string but got int'')))
   \<and> executions 2 (trace (final (Retry sequentialSelect 5 (world0 ())
                                     [produces (VInt 1), passesString] []))) = 5"
  by code_simp

text \<open>
  Where it goes wrong: \<^verbatim>\<open>Chain\<close> reports the mismatch through the ordinary error
  result of the step, without calling the wrapped function, and the walk breaks with it
  as with any step failure.
\<close>

lemma Chain_mismatch_breaks_walk:
  assumes "i < length steps"
    and "run (steps ! i) = run (Chain In fn)"
    and "ctxErr (theWorld st) = None"
    and "prevOutput st \<noteq> VNil"
    and "In \<noteq> TAny"
    and "typeOf (prevOutput st) \<noteq> Some In"
  shows "\<exists>st'. walk cfg steps i st
               = Broke (AttemptError (currentAttempt st) (int i + 1)
                          (mismatch In (prevOutput st))) st'
       \<and> trace st' = trace st @ [\<lparr>exAttempt = currentAttempt st, exStep = Suc i,
                                    exInput = prevOutput st, exOutput = VNil,
                                    exErr = Some (mismatch In (prevOutput st))\<rparr>]
       \<and> theWorld st' = (case onFail (steps ! i) of
                            None \<Rightarrow> theWorld st
                          | Some callback \<Rightarrow> callback (theWorld st))"
proof -
  have r: "run (steps ! i) (theWorld st) (prevOutput st)
             = ((VNil, Some (mismatch In (prevOutput st))), theWorld st)"
    using assms(4,5,6) unfolding assms(2)
    by (cases "prevOutput st") (auto simp: Chain_def typeAssert_def)
  let ?ev = "\<lparr>exAttempt = currentAttempt st, exStep = Suc i, exInput = prevOutput st,
               exOutput = VNil, exErr = Some (mismatch In (prevOutput st))\<rparr>"
  let ?st' = "st\<lparr>theWorld := (case onFail (steps ! i) of
                                  None \<Rightarrow> theWorld st
                                | Some callback \<Rightarrow> callback (theWorld st)),
                   trace := trace st @ [?ev]\<rparr>"
  have "runStep (steps ! i) i st
          = Inl (AttemptError (currentAttempt st) (int i + 1) (mismatch In (prevOutput st)), ?st')"
    by (simp add: runStep_def r Let_def)
  from walk_fail [OF assms(1) assms(3) this] show ?thesis by simp
qed

section \<open>Validation of the options (C9)\<close>

text \<open>
  C9, as stated, fails: for the empty pipeline \<^verbatim>\<open>Retry\<close> returns nil before it looks
  at the options, here with an initial backoff of 0.
\<close>

theorem C9_counterexample:
  "returned (Retry sequentialSelect 1 (world0 ()) [] [WithInitialBackoff 0]) = Some None
   \<and> sint (initialBackoff (applyOptions [WithInitialBackoff 0] :: unit options)) \<le> 0"
  by code_simp

text \<open>
  C9, amended: for every non-empty pipeline and every option list, if the effective
  configuration has a non-positive initial backoff, or a maximum backoff below the
  initial backoff, or a negative jitter, or a negative maximum retry count together with
  a zero maximum elapsed time, then \<^verbatim>\<open>Retry\<close> returns a non-nil error before any step
  runs: the log is empty and the world untouched.
\<close>

theorem C9_invalid_options_rejected:
  assumes "steps \<noteq> []"
    and "sint (initialBackoff (applyOptions opts)) \<le> 0
       \<or> sint (maxBackoff (applyOptions opts)) < sint (initialBackoff (applyOptions opts))
       \<or> sint (jitter (applyOptions opts)) < 0
       \<or> (maxRetries (applyOptions opts) < 0 \<and> maxElapsedTime (applyOptions opts) = 0)"
  shows "\<exists>e. Retry sel fuel w steps opts = Return (Some e) (zeroState w)
           \<and> trace (zeroState w) = [] \<and> theWorld (zeroState w) = w"
  using assms by (auto simp: Retry_def Let_def zeroState_def)

text \<open>
  C9, amended, at a concrete call: unbounded retries with an unbounded elapsed time.
\<close>

theorem C9_invalid_options_rejected_witness:
  "\<exists>e. Retry sequentialSelect 3 (world0 ()) [alwaysFails ''fail''] [WithMaxRetries (- 1), WithMaxElapsedTime 0]
         = Return (Some e) (zeroState (world0 ()))"
proof -
  have h1: "[alwaysFails ''fail'' :: unit Step] \<noteq> []" by simp
  have h2: "sint (initialBackoff (applyOptions [WithMaxRetries (- 1), WithMaxElapsedTime 0] :: unit options)) \<le> 0
       \<or> sint (maxBackoff (applyOptions [WithMaxRetries (- 1), WithMaxElapsedTime 0] :: unit options))
           < sint (initialBackoff (applyOptions [WithMaxRetries (- 1), WithMaxElapsedTime 0] :: unit options))
       \<or> sint (jitter (applyOptions [WithMaxRetries (- 1), WithMaxElapsedTime 0] :: unit options)) < 0
       \<or> (maxRetries (applyOptions [WithMaxRetries (- 1), WithMaxElapsedTime 0] :: unit options) < 0
          \<and> maxElapsedTime (applyOptions [WithMaxRetries (- 1), WithMaxElapsedTime 0] :: unit options) = 0)"
    by (simp add: eval_defs)
  from C9_invalid_options_rejected [OF h1 h2, of sequentialSelect 3 "world0 ()"]
  show ?thesis by blast
qed


section \<open>Storing a nil output (C7)\<close>

text \<open>
  C7 fails on the code: a step made by \<^verbatim>\<open>Exec\<close> succeeds with a nil output; with an
  output target bound by \<^verbatim>\<open>Do\<close>, storing that output panics in
  \<^verbatim>\<open>reflect.Value.Set\<close> and the target keeps its old value.
\<close>

theorem C7_nil_output_panics:
  "panicked (Retry sequentialSelect 1 (world0 ())
               [Do (Some (Pointer 0 TAny)) (Exec (\<lambda>w. (None, w)))] [])
     = Some ''reflect: call of reflect.Value.Set on zero Value''
   \<and> executions 1 (trace (final (Retry sequentialSelect 1 (world0 ())
               [Do (Some (Pointer 0 TAny)) (Exec (\<lambda>w. (None, w)))] []))) = 1"
  by code_simp

text \<open>A non-nil output of an assignable type is written to the target.\<close>

lemma storeOutput_writes:
  assumes "outputPtr step = Some (Pointer a t)" and "typeOf out = Some u" and "assignableTo u t"
  shows "storeOutput step out st
           = Inr (st\<lparr>theWorld := (theWorld st)\<lparr>heap := (heap (theWorld st))(a := out)\<rparr>\<rparr>)"
  using assms by (cases out) (auto simp: storeOutput_def reflectSet_def)


section \<open>Cancellation (C6)\<close>








section \<open>What the phases outside the walk leave alone\<close>

lemma beginAttempt_Inl:
  assumes "beginAttempt cfg st = Inl r"
  shows "trace (final r) = trace st"
  using assms
  by (auto simp: beginAttempt_def Let_def split: option.splits prod.splits)

lemma storeOutput_Inl:
  assumes "storeOutput step out st = Inl r"
  shows "final r = st"
  using assms
  by (auto simp: storeOutput_def reflectSet_def split: option.splits ptr.splits if_splits)

lemma jitterSleep_Inl:
  assumes "jitterSleep cfg next st = Inl r"
  shows "final r = st"
  using assms
  by (auto simp: jitterSleep_def Let_def split: option.splits prod.splits if_splits)

lemma jitterSleep_Inr_fields:
  assumes "jitterSleep cfg next st = Inr (sleep, st1)"
  shows "trace st1 = trace st" and "sameLocals st st1"
  using assms
  by (auto simp: jitterSleep_def Let_def sameLocals_def split: option.splits prod.splits if_splits)

lemma backoff_Inl:
  assumes "backoff sel cfg st = Inl r"
  shows "trace (final r) = trace st"
proof -
  let ?next = "minDuration (backoffStrategy cfg (currentAttempt st) (currentBackoff st))
                           (maxBackoff cfg)"
  show ?thesis
  proof (cases "jitterSleep cfg ?next st")
    case (Inl r')
    with assms have "r = r'" by (simp add: backoff_def Let_def)
    with jitterSleep_Inl [OF Inl] show ?thesis by simp
  next
    case (Inr p)
    obtain sleep st1 where p: "p = (sleep, st1)" by (cases p)
    from jitterSleep_Inr_fields [OF Inr [unfolded p]] have tr: "trace st1 = trace st" by simp
    obtain d w where s: "sel sleep (theWorld st1) = (d, w)" by (cases "sel sleep (theWorld st1)")
    from assms Inr p s have "r = Return (ctxErr w) (st1\<lparr>theWorld := w\<rparr>)"
      by (cases d) (simp_all add: backoff_def Let_def)
    with tr show ?thesis by simp
  qed
qed

lemma backoff_Inr:
  assumes "backoff sel cfg st = Inr st'"
  shows "trace st' = trace st"
    and "currentAttempt st' = currentAttempt st"
    and "checkpointIndex st' = checkpointIndex st"
    and "lastCheckpointOutput st' = lastCheckpointOutput st"
    and "perErrorCounts st' = perErrorCounts st"
proof -
  let ?next = "minDuration (backoffStrategy cfg (currentAttempt st) (currentBackoff st))
                           (maxBackoff cfg)"
  from assms obtain p where Inr: "jitterSleep cfg ?next st = Inr p"
    by (cases "jitterSleep cfg ?next st") (simp_all add: backoff_def Let_def)
  obtain sleep st1 where p: "p = (sleep, st1)" by (cases p)
  from jitterSleep_Inr_fields [OF Inr [unfolded p]]
  have tr: "trace st1 = trace st" and loc: "sameLocals st st1" by simp_all
  obtain d w where s: "sel sleep (theWorld st1) = (d, w)" by (cases "sel sleep (theWorld st1)")
  from assms Inr p s have st': "st' = st1\<lparr>theWorld := w, currentBackoff := ?next\<rparr>"
    by (cases d) (simp_all add: backoff_def Let_def)
  show "trace st' = trace st" using st' tr by simp
  show "currentAttempt st' = currentAttempt st" using st' loc by (simp add: sameLocals_def)
  show "checkpointIndex st' = checkpointIndex st" using st' loc by (simp add: sameLocals_def)
  show "lastCheckpointOutput st' = lastCheckpointOutput st"
    using st' loc by (simp add: sameLocals_def)
  show "perErrorCounts st' = perErrorCounts st" using st' loc by (simp add: sameLocals_def)
qed

lemma afterFailure_Inl:
  assumes "afterFailure sel cfg start err st = Inl r"
  shows "trace (final r) = trace st"
proof -
  let ?key = "errorClassifier cfg (fullUnwrap err)"
  let ?st1 = "st\<lparr>perErrorCounts := (perErrorCounts st)(?key \<mapsto> countOf (perErrorCounts st) ?key + 1)\<rparr>"
  let ?st2 = "?st1\<lparr>theWorld := (case onRetry cfg of None \<Rightarrow> theWorld ?st1
               | Some hook \<Rightarrow> hook (currentAttempt ?st1) err (theWorld ?st1))\<rparr>"
  from assms have "r = Return (Some err) st \<or> r = Return (Some err) ?st1
                 \<or> r = Return (Some err) ?st2 \<or> backoff sel cfg ?st2 = Inl r"
    unfolding afterFailure_def Let_def by (auto split: if_splits)
  then show ?thesis using backoff_Inl [of sel cfg ?st2 r] by auto
qed

lemma afterFailure_Inr:
  assumes "afterFailure sel cfg start err st = Inr st'"
  shows "trace st' = trace st"
    and "currentAttempt st' = currentAttempt st"
    and "checkpointIndex st' = checkpointIndex st"
    and "lastCheckpointOutput st' = lastCheckpointOutput st"
proof -
  let ?key = "errorClassifier cfg (fullUnwrap err)"
  let ?st1 = "st\<lparr>perErrorCounts := (perErrorCounts st)(?key \<mapsto> countOf (perErrorCounts st) ?key + 1)\<rparr>"
  let ?st2 = "?st1\<lparr>theWorld := (case onRetry cfg of None \<Rightarrow> theWorld ?st1
               | Some hook \<Rightarrow> hook (currentAttempt ?st1) err (theWorld ?st1))\<rparr>"
  from assms have b: "backoff sel cfg ?st2 = Inr st'"
    unfolding afterFailure_def Let_def by (auto split: if_splits)
  note f = backoff_Inr [OF b]
  show "trace st' = trace st" using f(1) by simp
  show "currentAttempt st' = currentAttempt st" using f(2) by simp
  show "checkpointIndex st' = checkpointIndex st" using f(3) by simp
  show "lastCheckpointOutput st' = lastCheckpointOutput st" using f(4) by simp
qed


section \<open>The attempt and step of an AttemptError (C8)\<close>

text \<open>
  C8, as stated, fails: a step that fails in the walk in which a checkpoint before it was
  passed is reported with attempt 0, which is not a 1-based attempt number.
\<close>

theorem C8_counterexample:
  "returned (Retry sequentialSelect 1 (world0 ())
      [Checkpoint (produces (VInt 1)), alwaysFails ''fail''] [WithRetryable (\<lambda>e. False)])
     = Some (Some (AttemptError 0 2 (ErrorString ''fail'')))"
  by code_simp

lemma advance_failed:
  "exErr e = Some cause \<Longrightarrow> advance steps s e = (attemptOf s, True)"
  by (simp add: advance_def)

lemma advance_succeeded:
  "exErr e = None \<Longrightarrow>
   advance steps s e = (if checkpoint (steps ! (exStep e - 1)) then 0 else attemptOf s, False)"
  by (simp add: advance_def)

lemma numbered_append:
  "numbered steps s (tr @ es)
     \<longleftrightarrow> numbered steps s tr \<and> numbered steps (foldl (advance steps) s tr) es"
  by (induction tr arbitrary: s) simp_all

lemma numbered_snoc:
  "numbered steps s (tr @ [e])
     \<longleftrightarrow> numbered steps s tr \<and> exAttempt e = attemptOf (foldl (advance steps) s tr)"
  by (simp add: numbered_append)

text \<open>
  The walk keeps the log numbered: inside a walk \<^verbatim>\<open>currentAttempt\<close> is the number the
  log gives to the next execution, and when the walk breaks the log says that a new walk
  comes next, after \<^verbatim>\<open>currentAttempt\<close> walks.
\<close>

lemma walk_numbered:
  assumes "numbered steps s0 (trace st)"
    and "attemptOf (foldl (advance steps) s0 (trace st)) = currentAttempt st"
  shows "case walk cfg steps i st of
           Completed st' \<Rightarrow> numbered steps s0 (trace st')
         | Broke err st' \<Rightarrow>
             numbered steps s0 (trace st')
             \<and> foldl (advance steps) s0 (trace st') = (currentAttempt st', True)
         | Ended r \<Rightarrow> numbered steps s0 (trace (final r))"
  using assms
proof (induction cfg steps i st rule: walk.induct)
  case (1 cfg steps i st)
  show ?case
  proof (cases "i < length steps")
    case False
    then show ?thesis using "1.prems" by (simp add: walk_end)
  next
    case lt: True
    show ?thesis
    proof (cases "ctxErr (theWorld st)")
      case (Some c)
      then show ?thesis using "1.prems" lt by (simp add: walk_cancelled)
    next
      case live: None
      show ?thesis
      proof (cases "runStep (steps ! i) i st")
        case (Inl p)
        obtain e st1 where p: "p = (e, st1)" by (cases p)
        with Inl have rs: "runStep (steps ! i) i st = Inl (e, st1)" by simp
        from runStep_Inl [OF rs] obtain out cause where
          tr: "trace st1 = trace st @ [\<lparr>exAttempt = currentAttempt st, exStep = Suc i,
                                         exInput = prevOutput st, exOutput = out,
                                         exErr = Some cause\<rparr>]"
          and loc: "sameLocals st st1"
          by blast
        have "numbered steps s0 (trace st1)"
          using "1.prems" tr by (simp add: numbered_snoc)
        moreover have "foldl (advance steps) s0 (trace st1) = (currentAttempt st1, True)"
          using "1.prems"(2) tr loc by (simp add: advance_failed sameLocals_def)
        ultimately show ?thesis using walk_fail [OF lt live rs] by simp
      next
        case (Inr p)
        obtain out st1 where p: "p = (out, st1)" by (cases p)
        with Inr have rs: "runStep (steps ! i) i st = Inr (out, st1)" by simp
        let ?ev = "\<lparr>exAttempt = currentAttempt st, exStep = Suc i,
                    exInput = prevOutput st, exOutput = out, exErr = None\<rparr>"
        from runStep_Inr [OF rs] have tr1: "trace st1 = trace st @ [?ev]"
          and loc1: "sameLocals st st1" by simp_all
        have n1: "numbered steps s0 (trace st1)"
          using "1.prems" tr1 by (simp add: numbered_snoc)
        show ?thesis
        proof (cases "storeOutput (steps ! i) out st1")
          case (Inl r)
          from storeOutput_Inl [OF Inl] n1 walk_store_fail [OF lt live rs Inl]
          show ?thesis by simp
        next
          case st2: (Inr st2)
          from storeOutput_Inr [OF st2] have tr2: "trace st2 = trace st1"
            and loc2: "sameLocals st1 st2" by simp_all
          let ?st3 = "afterSuccess cfg (steps ! i) i out st2"
          have n3: "numbered steps s0 (trace ?st3)" using n1 tr2 by simp
          have a3: "attemptOf (foldl (advance steps) s0 (trace ?st3)) = currentAttempt ?st3"
            using "1.prems"(2) tr1 tr2 loc1 loc2
            by (simp add: advance_succeeded attemptOf_def sameLocals_def)
          from "1.IH" [OF lt live Inr p [symmetric] st2 n3 a3]
          show ?thesis using walk_next [OF lt live rs st2] by simp
        qed
      qed
    qed
  qed
qed

lemma Retry_loop_numbered:
  assumes "numbered steps s0 (trace st)"
    and "foldl (advance steps) s0 (trace st) = (currentAttempt st, True)"
  shows "numbered steps s0 (trace (final (Retry_loop sel cfg steps start fuel st)))"
  using assms
proof (induction fuel arbitrary: st)
  case 0
  then show ?case by simp
next
  case (Suc fuel)
  show ?case
  proof (cases "beginAttempt cfg st")
    case (Inl r)
    with beginAttempt_Inl [OF Inl] Suc.prems show ?thesis by simp
  next
    case (Inr st1)
    note f = beginAttempt_Inr [OF Inr]
    have n1: "numbered steps s0 (trace st1)" using Suc.prems f by simp
    have a1: "attemptOf (foldl (advance steps) s0 (trace st1)) = currentAttempt st1"
      using Suc.prems f by (simp add: attemptOf_def)
    from walk_numbered [OF n1 a1, of cfg "checkpointIndex st1"]
    show ?thesis
    proof (cases "walk cfg steps (checkpointIndex st1) st1")
      case (Completed st2)
      with walk_numbered [OF n1 a1, of cfg "checkpointIndex st1"] Inr show ?thesis by simp
    next
      case (Ended r)
      with walk_numbered [OF n1 a1, of cfg "checkpointIndex st1"] Inr show ?thesis by simp
    next
      case (Broke err st2)
      with walk_numbered [OF n1 a1, of cfg "checkpointIndex st1"]
      have n2: "numbered steps s0 (trace st2)"
        and a2: "foldl (advance steps) s0 (trace st2) = (currentAttempt st2, True)"
        by simp_all
      show ?thesis
      proof (cases "afterFailure sel cfg start err st2")
        case (Inl r)
        with afterFailure_Inl [OF Inl] n2 Inr Broke show ?thesis by simp
      next
        case st3: (Inr st3)
        note g = afterFailure_Inr [OF st3]
        have "numbered steps s0 (trace (final (Retry_loop sel cfg steps start fuel st3)))"
          using n2 a2 g by (intro Suc.IH) simp_all
        with Inr Broke st3 show ?thesis by simp
      qed
    qed
  qed
qed

lemma Retry_numbered:
  "numbered steps (0, True) (trace (final (Retry sel fuel w steps opts)))"
proof -
  let ?st = "(zeroState w)\<lparr>currentBackoff := initialBackoff (applyOptions opts)\<rparr>"
  have "numbered steps (0, True)
          (trace (final (Retry_loop sel (applyOptions opts) steps (clock w) fuel ?st)))"
    by (rule Retry_loop_numbered) (simp_all add: zeroState_def)
  then show ?thesis by (simp add: Retry_def Let_def zeroState_def)
qed

text \<open>
  C8, amended: every step failure is wrapped in an \<open>AttemptError\<close> whose \<open>Step\<close> is the
  1-based index of the failing step in the full pipeline, whose \<open>Unwrap\<close> is the cause the
  step returned, and whose \<open>Attempt\<close> is the attempt logged for the failing execution;
  and in the log of every call the attempt of each execution is the number of walks
  begun since the last checkpoint reset: 1 for the first walk of the call and for the
  first walk after a checkpoint advance, one more for each further walk, and 0 for the
  executions that follow a checkpoint in the walk that passed it.
\<close>

theorem C8_attempt_error_numbering:
  "numbered steps (0, True) (trace (final (Retry sel fuel w steps opts)))
   \<and> (walk cfg pipeline i st = Broke err st'
        \<longrightarrow> (\<exists>k cause. i \<le> k \<and> k < length pipeline
               \<and> err = AttemptError (exAttempt (last (trace st'))) (int k + 1) cause
               \<and> Unwrap err = Some cause
               \<and> exStep (last (trace st')) = Suc k
               \<and> exErr (last (trace st')) = Some cause
               \<and> (\<exists>w' v. snd (fst (run (pipeline ! k) w' v)) = Some cause)))"
proof (intro conjI impI)
  show "numbered steps (0, True) (trace (final (Retry sel fuel w steps opts)))"
    by (rule Retry_numbered)
next
  assume "walk cfg pipeline i st = Broke err st'"
  from walk_Broke [OF this] obtain k cause evs where
    k: "i \<le> k" "k < length pipeline"
    and err: "err = AttemptError (if \<exists>j\<in>{i..<k}. checkpoint (pipeline ! j) then 0
                                else currentAttempt st) (int k + 1) cause"
    and tr: "trace st' = trace st @ evs"
    and steps: "map exStep evs = map Suc [i..<Suc k]"
    and last: "exErr (last evs) = Some cause"
    and lastA: "exAttempt (last evs) = Attempt err"
    and rn: "\<exists>w' v. snd (fst (run (pipeline ! k) w' v)) = Some cause"
    by blast
  from steps k have ne: "evs \<noteq> []" by auto
  have lastStep: "exStep (last evs) = Suc k"
  proof -
    have "exStep (last evs) = last (map exStep evs)" using ne by (simp add: last_map)
    also have "\<dots> = Suc k" using steps k by (simp add: last_map)
    finally show ?thesis .
  qed
  have "err = AttemptError (exAttempt (last (trace st'))) (int k + 1) cause"
    using err lastA tr ne by simp
  moreover have "Unwrap err = Some cause" using err by simp
  moreover have "exStep (last (trace st')) = Suc k" using tr ne lastStep by simp
  moreover have "exErr (last (trace st')) = Some cause" using tr ne last by simp
  ultimately show "\<exists>k cause. i \<le> k \<and> k < length pipeline
               \<and> err = AttemptError (exAttempt (last (trace st'))) (int k + 1) cause
               \<and> Unwrap err = Some cause
               \<and> exStep (last (trace st')) = Suc k
               \<and> exErr (last (trace st')) = Some cause
               \<and> (\<exists>w' v. snd (fst (run (pipeline ! k) w' v)) = Some cause)"
    using k rn by blast
qed


text \<open>
  C8, amended, at a concrete call: a checkpoint followed by a step that always fails,
  with at most two attempts. The walk that passes the checkpoint breaks with attempt 0
  at step 2.
\<close>

theorem C8_attempt_error_numbering_witness:
  "walk (applyOptions []) [Checkpoint (produces (VInt 1)), alwaysFails ''fail''] 0
      ((zeroState (world0 ()))\<lparr>currentAttempt := 1\<rparr>)
     = Broke (AttemptError 0 2 (ErrorString ''fail''))
         ((zeroState (world0 ()))\<lparr>currentAttempt := 0, checkpointIndex := 1,
            prevOutput := VInt 1, lastCheckpointOutput := VInt 1,
            currentBackoff := 500000000,
            trace := [\<lparr>exAttempt = 1, exStep = 1, exInput = VNil, exOutput = VInt 1,
                       exErr = None\<rparr>,
                      \<lparr>exAttempt = 0, exStep = 2, exInput = VInt 1, exOutput = VInt 0,
                       exErr = Some (ErrorString ''fail'')\<rparr>]\<rparr>)
   \<and> numbered ([Checkpoint (produces (VInt 1)), alwaysFails ''fail''] :: unit Step list) (0, True)
        (trace (final (Retry sequentialSelect 3 (world0 ())
                   [Checkpoint (produces (VInt 1)), alwaysFails ''fail''] [WithMaxRetries 2])))
   \<and> (\<exists>k cause. k < 2
         \<and> AttemptError 0 2 (ErrorString ''fail'') = AttemptError 0 (int k + 1) cause
         \<and> (\<exists>w' v. snd (fst (run ([Checkpoint (produces (VInt 1)), alwaysFails ''fail''] ! k
                                      :: unit Step) w' v)) = Some cause))"
proof -
  let ?cfg = "applyOptions [] :: unit options"
  let ?steps = "[Checkpoint (produces (VInt 1)), alwaysFails ''fail''] :: unit Step list"
  let ?st1 = "(zeroState (world0 ()))\<lparr>currentAttempt := 1\<rparr>"
  let ?err = "AttemptError 0 2 (ErrorString ''fail'')"
  let ?st2 = "(zeroState (world0 ()))\<lparr>currentAttempt := 0, checkpointIndex := 1,
            prevOutput := VInt 1, lastCheckpointOutput := VInt 1,
            currentBackoff := 500000000,
            trace := [\<lparr>exAttempt = 1, exStep = 1, exInput = VNil, exOutput = VInt 1,
                       exErr = None\<rparr>,
                      \<lparr>exAttempt = 0, exStep = 2, exInput = VInt 1, exOutput = VInt 0,
                       exErr = Some (ErrorString ''fail'')\<rparr>]\<rparr>"
  have h: "walk ?cfg ?steps 0 ?st1 = Broke ?err ?st2"
    by (simp add: eval_defs walk.simps)
  from C8_attempt_error_numbering
         [of ?steps sequentialSelect 3 "world0 ()" "[WithMaxRetries 2]" ?cfg ?steps 0 ?st1 ?err ?st2] h
  show ?thesis by auto
qed

text \<open>The attempts that call logs: 1, then 0 after the checkpoint, then 1 and 2.\<close>

lemma attempts_after_checkpoint:
  "map (\<lambda>e. (exStep e, exAttempt e))
     (trace (final (Retry sequentialSelect 3 (world0 ())
                [Checkpoint (produces (VInt 1)), alwaysFails ''fail''] [WithMaxRetries 2])))
   = [(1, 1), (2, 0), (2, 1), (2, 2)]"
  by code_simp


section \<open>A single step that always fails (C2, C3)\<close>










section \<open>The per-error-class limit (C3)\<close>






text \<open>The count in \<^verbatim>\<open>TestPerErrorLimits\<close> itself: limit 2, three executions.\<close>

lemma TestPerErrorLimits:
  "executions 1 (trace (final (Retry sequentialSelect 10 (world0 ()) [alwaysFails ''fail'']
      [WithPerErrorLimits [''c'' \<mapsto> 2], WithErrorClassifier (\<lambda>e. ''c''), WithMaxRetries 10])))
     = 3"
  by code_simp

section \<open>The attempt ceiling (C2)\<close>





text \<open>The count in \<^verbatim>\<open>TestRetryFailureExceedsMaxRetries\<close> itself, under the defaults.\<close>

lemma TestRetryFailureExceedsMaxRetries:
  "executions 1 (trace (final (Retry sequentialSelect 5 (world0 ()) [alwaysFails ''fail'']
      [WithMaxRetries 3]))) = 3"
  by code_simp


section \<open>Checkpoints (C1)\<close>

text \<open>
  C1, as stated, fails for a pipeline with two checkpoints: once both are passed, the
  later attempts begin at step 3 on the output of step 2, not at the step after the
  first checkpoint (step 2) on the output of step 1.
\<close>

theorem C1_counterexample:
  "checkpoint ([Checkpoint (produces (VInt 1)), Checkpoint (produces (VInt 2)),
                alwaysFails ''fail''] ! 0 :: unit Step)
   \<and> map (\<lambda>e. (exStep e, exInput e, exOutput e, exErr e = None))
        (trace (final (Retry sequentialSelect 3 (world0 ())
           [Checkpoint (produces (VInt 1)), Checkpoint (produces (VInt 2)),
            alwaysFails ''fail''] [WithMaxRetries 2])))
     = [(1, VNil, VInt 1, True), (2, VInt 1, VInt 2, True), (3, VInt 2, VInt 0, False),
        (3, VInt 2, VInt 0, False), (3, VInt 2, VInt 0, False)]
   \<and> returned (Retry sequentialSelect 3 (world0 ())
           [Checkpoint (produces (VInt 1)), Checkpoint (produces (VInt 2)),
            alwaysFails ''fail''] [WithMaxRetries 2])
     = Some (Some (AttemptError 2 3 (ErrorString ''fail'')))"
  by code_simp

lemma guarded_append:
  "guarded steps (xs @ ys) \<longleftrightarrow>
     (guarded steps xs \<and> guarded steps ys
      \<and> (\<forall>e \<in> set xs. passed steps e \<longrightarrow> (\<forall>e' \<in> set ys. behind e e')))"
  by (induction xs) auto

lemma guarded_snoc:
  "guarded steps (xs @ [x]) \<longleftrightarrow>
     (guarded steps xs \<and> (\<forall>e \<in> set xs. passed steps e \<longrightarrow> behind e x))"
  by (simp add: guarded_append)

lemma guarded_nth:
  "guarded steps es \<Longrightarrow> p < q \<Longrightarrow> q < length es \<Longrightarrow> passed steps (es ! p) \<Longrightarrow>
   behind (es ! p) (es ! q)"
proof (induction es arbitrary: p q)
  case Nil
  then show ?case by simp
next
  case (Cons e es)
  obtain q' where q: "q = Suc q'" using Cons.prems(2) by (cases q) auto
  show ?case
  proof (cases p)
    case 0
    then show ?thesis using Cons.prems q by auto
  next
    case (Suc p')
    then show ?thesis using Cons.prems q Cons.IH [of p' q'] by simp
  qed
qed

lemma walk_guarded:
  assumes "guarded steps (trace st)"
    and "\<forall>e \<in> set (trace st). passed steps e \<longrightarrow>
           exStep e \<le> i \<and> (exStep e = i \<longrightarrow> exOutput e = prevOutput st)"
    and "\<forall>e \<in> set (trace st). passed steps e \<longrightarrow>
           exStep e \<le> checkpointIndex st
           \<and> (exStep e = checkpointIndex st \<longrightarrow> exOutput e = lastCheckpointOutput st)"
  shows "case walk cfg steps i st of
           Completed st' \<Rightarrow> guarded steps (trace st')
         | Broke err st' \<Rightarrow>
             guarded steps (trace st')
             \<and> (\<forall>e \<in> set (trace st'). passed steps e \<longrightarrow>
                   exStep e \<le> checkpointIndex st'
                   \<and> (exStep e = checkpointIndex st'
                        \<longrightarrow> exOutput e = lastCheckpointOutput st'))
         | Ended r \<Rightarrow> guarded steps (trace (final r))"
  using assms
proof (induction cfg steps i st rule: walk.induct)
  case (1 cfg steps i st)
  show ?case
  proof (cases "i < length steps")
    case False
    then show ?thesis using "1.prems" by (simp add: walk_end)
  next
    case lt: True
    show ?thesis
    proof (cases "ctxErr (theWorld st)")
      case (Some c)
      then show ?thesis using "1.prems" lt by (simp add: walk_cancelled)
    next
      case live: None
      show ?thesis
      proof (cases "runStep (steps ! i) i st")
        case (Inl p)
        obtain e st1 where p: "p = (e, st1)" by (cases p)
        with Inl have rs: "runStep (steps ! i) i st = Inl (e, st1)" by simp
        from runStep_Inl [OF rs] obtain out cause where
          tr: "trace st1 = trace st @ [\<lparr>exAttempt = currentAttempt st, exStep = Suc i,
                                         exInput = prevOutput st, exOutput = out,
                                         exErr = Some cause\<rparr>]"
          and loc: "sameLocals st st1"
          by blast
        have "guarded steps (trace st1)"
          using "1.prems"(1,2) tr by (auto simp: guarded_snoc behind_def)
        moreover have "\<forall>e \<in> set (trace st1). passed steps e \<longrightarrow>
                   exStep e \<le> checkpointIndex st1
                   \<and> (exStep e = checkpointIndex st1
                        \<longrightarrow> exOutput e = lastCheckpointOutput st1)"
          using "1.prems"(3) tr loc by (auto simp: sameLocals_def passed_def)
        ultimately show ?thesis using walk_fail [OF lt live rs] by simp
      next
        case (Inr p)
        obtain out st1 where p: "p = (out, st1)" by (cases p)
        with Inr have rs: "runStep (steps ! i) i st = Inr (out, st1)" by simp
        let ?ev = "\<lparr>exAttempt = currentAttempt st, exStep = Suc i,
                    exInput = prevOutput st, exOutput = out, exErr = None\<rparr>"
        from runStep_Inr [OF rs] have tr1: "trace st1 = trace st @ [?ev]"
          and loc1: "sameLocals st st1" by simp_all
        have n1: "guarded steps (trace st1)"
          using "1.prems"(1,2) tr1 by (auto simp: guarded_snoc behind_def)
        show ?thesis
        proof (cases "storeOutput (steps ! i) out st1")
          case (Inl r)
          from storeOutput_Inl [OF Inl] n1 walk_store_fail [OF lt live rs Inl]
          show ?thesis by simp
        next
          case st2: (Inr st2)
          from storeOutput_Inr [OF st2] have tr2: "trace st2 = trace st1"
            and loc2: "sameLocals st1 st2" by simp_all
          let ?st3 = "afterSuccess cfg (steps ! i) i out st2"
          have n3: "guarded steps (trace ?st3)" using n1 tr2 by simp
          have pv: "passed steps ?ev \<longleftrightarrow> checkpoint (steps ! i)"
            by (simp add: passed_def)
          have a3: "\<forall>e \<in> set (trace ?st3). passed steps e \<longrightarrow>
                      exStep e \<le> Suc i \<and> (exStep e = Suc i \<longrightarrow> exOutput e = prevOutput ?st3)"
            using "1.prems"(2) tr1 tr2 by auto
          have b3: "\<forall>e \<in> set (trace ?st3). passed steps e \<longrightarrow>
                      exStep e \<le> checkpointIndex ?st3
                      \<and> (exStep e = checkpointIndex ?st3
                           \<longrightarrow> exOutput e = lastCheckpointOutput ?st3)"
          proof (cases "checkpoint (steps ! i)")
            case True
            then show ?thesis using "1.prems"(2) tr1 tr2 by auto
          next
            case False
            then show ?thesis using "1.prems"(3) tr1 tr2 loc1 loc2 pv
              by (auto simp: sameLocals_def)
          qed
          from "1.IH" [OF lt live Inr p [symmetric] st2 n3 a3 b3]
          show ?thesis using walk_next [OF lt live rs st2] by simp
        qed
      qed
    qed
  qed
qed

lemma Retry_loop_guarded:
  assumes "guarded steps (trace st)"
    and "\<forall>e \<in> set (trace st). passed steps e \<longrightarrow>
           exStep e \<le> checkpointIndex st
           \<and> (exStep e = checkpointIndex st \<longrightarrow> exOutput e = lastCheckpointOutput st)"
  shows "guarded steps (trace (final (Retry_loop sel cfg steps start fuel st)))"
  using assms
proof (induction fuel arbitrary: st)
  case 0
  then show ?case by simp
next
  case (Suc fuel)
  show ?case
  proof (cases "beginAttempt cfg st")
    case (Inl r)
    with beginAttempt_Inl [OF Inl] Suc.prems show ?thesis by simp
  next
    case (Inr st1)
    note f = beginAttempt_Inr [OF Inr]
    have n1: "guarded steps (trace st1)" using Suc.prems f by simp
    have a1: "\<forall>e \<in> set (trace st1). passed steps e \<longrightarrow>
           exStep e \<le> checkpointIndex st1
           \<and> (exStep e = checkpointIndex st1 \<longrightarrow> exOutput e = prevOutput st1)"
      using Suc.prems(2) f by simp
    have b1: "\<forall>e \<in> set (trace st1). passed steps e \<longrightarrow>
           exStep e \<le> checkpointIndex st1
           \<and> (exStep e = checkpointIndex st1 \<longrightarrow> exOutput e = lastCheckpointOutput st1)"
      using Suc.prems(2) f by simp
    note w = walk_guarded [OF n1 a1 b1, of cfg]
    show ?thesis
    proof (cases "walk cfg steps (checkpointIndex st1) st1")
      case (Completed st2)
      with w Inr show ?thesis by simp
    next
      case (Ended r)
      with w Inr show ?thesis by simp
    next
      case (Broke err st2)
      with w
      have n2: "guarded steps (trace st2)"
        and b2: "\<forall>e \<in> set (trace st2). passed steps e \<longrightarrow>
                   exStep e \<le> checkpointIndex st2
                   \<and> (exStep e = checkpointIndex st2
                        \<longrightarrow> exOutput e = lastCheckpointOutput st2)"
        by simp_all
      show ?thesis
      proof (cases "afterFailure sel cfg start err st2")
        case (Inl r)
        with afterFailure_Inl [OF Inl] n2 Inr Broke show ?thesis by simp
      next
        case st3: (Inr st3)
        note g = afterFailure_Inr [OF st3]
        have "guarded steps (trace (final (Retry_loop sel cfg steps start fuel st3)))"
          using n2 b2 g by (intro Suc.IH) simp_all
        with Inr Broke st3 show ?thesis by simp
      qed
    qed
  qed
qed

lemma Retry_guarded:
  "guarded steps (trace (final (Retry sel fuel w steps opts)))"
proof -
  let ?st = "(zeroState w)\<lparr>currentBackoff := initialBackoff (applyOptions opts)\<rparr>"
  have "guarded steps
          (trace (final (Retry_loop sel (applyOptions opts) steps (clock w) fuel ?st)))"
    by (rule Retry_loop_guarded) (simp_all add: zeroState_def)
  then show ?thesis by (simp add: Retry_def Let_def zeroState_def)
qed


lemma resume_failed:
  "exErr e = Some cause \<Longrightarrow> resume steps s e = (fst s, True)"
  by (simp add: resume_def passed_def)

lemma resume_succeeded:
  "exErr e = None \<Longrightarrow>
   resume steps s e
     = (if checkpoint (steps ! (exStep e - 1)) then (exStep e, exOutput e) else fst s, False)"
  by (simp add: resume_def passed_def)

lemma resumes_append:
  "resumes steps s (tr @ es)
     \<longleftrightarrow> (resumes steps s tr \<and> resumes steps (foldl (resume steps) s tr) es)"
  by (induction tr arbitrary: s) simp_all

lemma resumes_snoc:
  "resumes steps s (tr @ [e])
     \<longleftrightarrow> (resumes steps s tr
          \<and> (snd (foldl (resume steps) s tr)
               \<longrightarrow> exStep e = Suc (fst (fst (foldl (resume steps) s tr)))
                   \<and> exInput e = snd (fst (foldl (resume steps) s tr))))"
  by (simp add: resumes_append)

lemma walk_resumes:
  assumes "resumes steps s0 (trace st)"
    and "fst (foldl (resume steps) s0 (trace st))
           = (checkpointIndex st, lastCheckpointOutput st)"
    and "snd (foldl (resume steps) s0 (trace st))
           \<longrightarrow> i = checkpointIndex st \<and> prevOutput st = lastCheckpointOutput st"
  shows "case walk cfg steps i st of
           Completed st' \<Rightarrow> resumes steps s0 (trace st')
         | Broke err st' \<Rightarrow>
             resumes steps s0 (trace st')
             \<and> foldl (resume steps) s0 (trace st')
                 = ((checkpointIndex st', lastCheckpointOutput st'), True)
         | Ended r \<Rightarrow> resumes steps s0 (trace (final r))"
  using assms
proof (induction cfg steps i st rule: walk.induct)
  case (1 cfg steps i st)
  show ?case
  proof (cases "i < length steps")
    case False
    then show ?thesis using "1.prems" by (simp add: walk_end)
  next
    case lt: True
    show ?thesis
    proof (cases "ctxErr (theWorld st)")
      case (Some c)
      then show ?thesis using "1.prems" lt by (simp add: walk_cancelled)
    next
      case live: None
      show ?thesis
      proof (cases "runStep (steps ! i) i st")
        case (Inl p)
        obtain e st1 where p: "p = (e, st1)" by (cases p)
        with Inl have rs: "runStep (steps ! i) i st = Inl (e, st1)" by simp
        from runStep_Inl [OF rs] obtain out cause where
          tr: "trace st1 = trace st @ [\<lparr>exAttempt = currentAttempt st, exStep = Suc i,
                                         exInput = prevOutput st, exOutput = out,
                                         exErr = Some cause\<rparr>]"
          and loc: "sameLocals st st1"
          by blast
        have "resumes steps s0 (trace st1)"
          using "1.prems" tr by (simp add: resumes_snoc)
        moreover have "foldl (resume steps) s0 (trace st1)
                         = ((checkpointIndex st1, lastCheckpointOutput st1), True)"
          using "1.prems"(2) tr loc by (simp add: resume_failed sameLocals_def)
        ultimately show ?thesis using walk_fail [OF lt live rs] by simp
      next
        case (Inr p)
        obtain out st1 where p: "p = (out, st1)" by (cases p)
        with Inr have rs: "runStep (steps ! i) i st = Inr (out, st1)" by simp
        let ?ev = "\<lparr>exAttempt = currentAttempt st, exStep = Suc i,
                    exInput = prevOutput st, exOutput = out, exErr = None\<rparr>"
        from runStep_Inr [OF rs] have tr1: "trace st1 = trace st @ [?ev]"
          and loc1: "sameLocals st st1" by simp_all
        have n1: "resumes steps s0 (trace st1)"
          using "1.prems" tr1 by (simp add: resumes_snoc)
        show ?thesis
        proof (cases "storeOutput (steps ! i) out st1")
          case (Inl r)
          from storeOutput_Inl [OF Inl] n1 walk_store_fail [OF lt live rs Inl]
          show ?thesis by simp
        next
          case st2: (Inr st2)
          from storeOutput_Inr [OF st2] have tr2: "trace st2 = trace st1"
            and loc2: "sameLocals st1 st2" by simp_all
          let ?st3 = "afterSuccess cfg (steps ! i) i out st2"
          have n3: "resumes steps s0 (trace ?st3)" using n1 tr2 by simp
          have f3: "foldl (resume steps) s0 (trace ?st3)
                      = ((checkpointIndex ?st3, lastCheckpointOutput ?st3), False)"
            using "1.prems"(2) tr1 tr2 loc1 loc2
            by (simp add: resume_succeeded sameLocals_def)
          have a3: "fst (foldl (resume steps) s0 (trace ?st3))
                      = (checkpointIndex ?st3, lastCheckpointOutput ?st3)"
            by (simp only: f3 fst_conv)
          have b3: "snd (foldl (resume steps) s0 (trace ?st3))
                      \<longrightarrow> Suc i = checkpointIndex ?st3
                          \<and> prevOutput ?st3 = lastCheckpointOutput ?st3"
            by (simp only: f3 snd_conv simp_thms)
          from "1.IH" [OF lt live Inr p [symmetric] st2 n3 a3 b3]
          show ?thesis using walk_next [OF lt live rs st2] by simp
        qed
      qed
    qed
  qed
qed

lemma Retry_loop_resumes:
  assumes "resumes steps s0 (trace st)"
    and "foldl (resume steps) s0 (trace st)
           = ((checkpointIndex st, lastCheckpointOutput st), True)"
  shows "resumes steps s0 (trace (final (Retry_loop sel cfg steps start fuel st)))"
  using assms
proof (induction fuel arbitrary: st)
  case 0
  then show ?case by simp
next
  case (Suc fuel)
  show ?case
  proof (cases "beginAttempt cfg st")
    case (Inl r)
    with beginAttempt_Inl [OF Inl] Suc.prems show ?thesis by simp
  next
    case (Inr st1)
    note f = beginAttempt_Inr [OF Inr]
    have n1: "resumes steps s0 (trace st1)" using Suc.prems f by simp
    have a1: "fst (foldl (resume steps) s0 (trace st1))
                = (checkpointIndex st1, lastCheckpointOutput st1)"
      using Suc.prems(2) f by simp
    have b1: "snd (foldl (resume steps) s0 (trace st1))
                \<longrightarrow> checkpointIndex st1 = checkpointIndex st1
                    \<and> prevOutput st1 = lastCheckpointOutput st1"
      using f by simp
    note w = walk_resumes [OF n1 a1 b1, of cfg]
    show ?thesis
    proof (cases "walk cfg steps (checkpointIndex st1) st1")
      case (Completed st2)
      with w Inr show ?thesis by simp
    next
      case (Ended r)
      with w Inr show ?thesis by simp
    next
      case (Broke err st2)
      with w
      have n2: "resumes steps s0 (trace st2)"
        and a2: "foldl (resume steps) s0 (trace st2)
                   = ((checkpointIndex st2, lastCheckpointOutput st2), True)"
        by simp_all
      show ?thesis
      proof (cases "afterFailure sel cfg start err st2")
        case (Inl r)
        with afterFailure_Inl [OF Inl] n2 Inr Broke show ?thesis by simp
      next
        case st3: (Inr st3)
        note g = afterFailure_Inr [OF st3]
        have "resumes steps s0 (trace (final (Retry_loop sel cfg steps start fuel st3)))"
          using n2 a2 g by (intro Suc.IH) simp_all
        with Inr Broke st3 show ?thesis by simp
      qed
    qed
  qed
qed

lemma Retry_resumes:
  "resumes steps ((0, VNil), True) (trace (final (Retry sel fuel w steps opts)))"
proof -
  let ?st = "(zeroState w)\<lparr>currentBackoff := initialBackoff (applyOptions opts)\<rparr>"
  have "resumes steps ((0, VNil), True)
          (trace (final (Retry_loop sel (applyOptions opts) steps (clock w) fuel ?st)))"
    by (rule Retry_loop_resumes) (simp_all add: zeroState_def)
  then show ?thesis by (simp add: Retry_def Let_def zeroState_def)
qed

text \<open>From the state machine to positions in the log.\<close>

lemma resume_fst:
  "fst (resume steps s e) = (if passed steps e then (exStep e, exOutput e) else fst s)"
  by (simp add: resume_def)

lemma resume_fold_snd:
  "es \<noteq> [] \<Longrightarrow> snd (foldl (resume steps) s es) = (exErr (last es) \<noteq> None)"
  by (induction es rule: rev_induct) (simp_all add: resume_def)

lemma resume_fold_fst:
  "p < length es \<Longrightarrow> passed steps (es ! p) \<Longrightarrow>
   \<forall>r. p < r \<and> r < length es \<longrightarrow> \<not> passed steps (es ! r) \<Longrightarrow>
   fst (foldl (resume steps) s es) = (exStep (es ! p), exOutput (es ! p))"
proof (induction es rule: rev_induct)
  case Nil
  then show ?case by simp
next
  case (snoc x es)
  show ?case
  proof (cases "p = length es")
    case True
    then show ?thesis using snoc.prems by (simp add: resume_fst)
  next
    case False
    with snoc.prems have lt: "p < length es" by simp
    have nx: "\<not> passed steps x" using snoc.prems(3) lt
      by (auto dest: spec [of _ "length es"])
    have "\<forall>r. p < r \<and> r < length es \<longrightarrow> \<not> passed steps (es ! r)"
    proof (intro allI impI)
      fix r assume r: "p < r \<and> r < length es"
      then have "\<not> passed steps ((es @ [x]) ! r)" using snoc.prems(3) by simp
      then show "\<not> passed steps (es ! r)" using r by (simp add: nth_append)
    qed
    with snoc.IH lt snoc.prems(2)
    have "fst (foldl (resume steps) s es) = (exStep (es ! p), exOutput (es ! p))"
      by (simp add: nth_append)
    then show ?thesis using nx lt by (simp add: resume_fst nth_append)
  qed
qed

lemma resumes_nth:
  "resumes steps s es \<Longrightarrow> q < length es \<Longrightarrow> snd (foldl (resume steps) s (take q es)) \<Longrightarrow>
   exStep (es ! q) = Suc (fst (fst (foldl (resume steps) s (take q es))))
   \<and> exInput (es ! q) = snd (fst (foldl (resume steps) s (take q es)))"
proof -
  assume r: "resumes steps s es" and q: "q < length es"
    and f: "snd (foldl (resume steps) s (take q es))"
  have "es = take q es @ es ! q # drop (Suc q) es" using q by (simp add: id_take_nth_drop)
  with r have "resumes steps s (take q es @ es ! q # drop (Suc q) es)" by simp
  then have "resumes steps (foldl (resume steps) s (take q es)) (es ! q # drop (Suc q) es)"
    by (simp only: resumes_append)
  then show ?thesis using f by simp
qed

text \<open>
  C1, amended: in the log of every call, an execution that passed a checkpoint (a
  successful execution of a checkpoint step \<open>k\<close>) is followed only by executions of later
  steps, so that no step up to \<open>k\<close> is executed again and step \<open>k\<close> succeeds once; every
  later execution of step \<open>k + 1\<close> receives as input exactly the output of that
  execution; and every later attempt begun while no further checkpoint has been passed
  (an execution that follows a failed one begins an attempt) executes step \<open>k + 1\<close> first,
  on that output.
\<close>

theorem C1_checkpoint_not_rerun:
  assumes "tr = trace (final (Retry sel fuel w steps opts))"
    and "p < q" and "q < length tr"
    and "passed steps (tr ! p)"
  shows "exStep (tr ! p) < exStep (tr ! q)
       \<and> (exStep (tr ! q) = exStep (tr ! p) + 1 \<longrightarrow> exInput (tr ! q) = exOutput (tr ! p))
       \<and> (exErr (tr ! (q - 1)) \<noteq> None \<and> (\<forall>r \<in> {p<..<q}. \<not> passed steps (tr ! r))
            \<longrightarrow> exStep (tr ! q) = exStep (tr ! p) + 1
                \<and> exInput (tr ! q) = exOutput (tr ! p))"
proof -
  have g: "guarded steps tr" using assms(1) Retry_guarded by simp
  have r: "resumes steps ((0, VNil), True) tr" using assms(1) Retry_resumes by simp
  from guarded_nth [OF g assms(2,3,4)]
  have b: "behind (tr ! p) (tr ! q)" .
  have c: "exStep (tr ! q) = exStep (tr ! p) + 1 \<and> exInput (tr ! q) = exOutput (tr ! p)"
    if f: "exErr (tr ! (q - 1)) \<noteq> None" and n: "\<forall>r \<in> {p<..<q}. \<not> passed steps (tr ! r)"
  proof -
    let ?pre = "take q tr"
    have len: "length ?pre = q" using assms(3) by simp
    have ne: "?pre \<noteq> []" using assms(2,3) by auto
    have lastp: "last ?pre = tr ! (q - 1)"
      using ne len assms(2,3) by (simp add: last_conv_nth)
    have s: "snd (foldl (resume steps) ((0, VNil), True) ?pre)"
      using resume_fold_snd [OF ne] lastp f by simp
    have pp: "passed steps (?pre ! p)" using assms(2,4) by simp
    have np: "\<forall>r. p < r \<and> r < length ?pre \<longrightarrow> \<not> passed steps (?pre ! r)"
      using n len by auto
    have "fst (foldl (resume steps) ((0, VNil), True) ?pre)
            = (exStep (?pre ! p), exOutput (?pre ! p))"
      using assms(2) len pp np by (intro resume_fold_fst) simp_all
    then have fs: "fst (foldl (resume steps) ((0, VNil), True) ?pre)
                     = (exStep (tr ! p), exOutput (tr ! p))"
      using assms(2) by simp
    from resumes_nth [OF r assms(3) s] fs show ?thesis by simp
  qed
  from b c show ?thesis by (auto simp: behind_def)
qed

text \<open>
  C1, amended, at a concrete call: a checkpoint, then a step that always fails. The
  checkpoint is passed by the first execution; the second fails, and the third, which
  begins the next attempt, runs step 2 on the output of the checkpoint.
\<close>

theorem C1_checkpoint_not_rerun_witness:
  "passed checkpointThenFailure (checkpointLog ! 0)
   \<and> 2 < length checkpointLog
   \<and> exErr (checkpointLog ! 1) \<noteq> None
   \<and> \<not> passed checkpointThenFailure (checkpointLog ! 1)
   \<and> exStep (checkpointLog ! 0) < exStep (checkpointLog ! 2)
   \<and> exStep (checkpointLog ! 2) = exStep (checkpointLog ! 0) + 1
   \<and> exInput (checkpointLog ! 2) = exOutput (checkpointLog ! 0)"
proof -
  have tr: "checkpointLog
              = trace (final (Retry sequentialSelect 3 (world0 ()) checkpointThenFailure
                                [WithMaxRetries 2]))"
    by (simp add: checkpointLog_def)
  have pq: "(0::nat) < 2" by simp
  have len: "2 < length checkpointLog" by code_simp
  have ps: "passed checkpointThenFailure (checkpointLog ! 0)" by code_simp
  have f: "exErr (checkpointLog ! 1) \<noteq> None" by code_simp
  have np: "\<not> passed checkpointThenFailure (checkpointLog ! 1)" by code_simp
  have iv: "{0<..<2::nat} = {1}" by auto
  have n: "\<forall>r \<in> {0<..<2}. \<not> passed checkpointThenFailure (checkpointLog ! r)"
    using np by (simp add: iv)
  from C1_checkpoint_not_rerun [OF tr pq len ps] f n
  have "exStep (checkpointLog ! 0) < exStep (checkpointLog ! 2)
      \<and> exStep (checkpointLog ! 2) = exStep (checkpointLog ! 0) + 1
      \<and> exInput (checkpointLog ! 2) = exOutput (checkpointLog ! 0)"
    by simp
  with ps len f np show ?thesis by simp
qed

text \<open>That log: step, input, output and success of each execution.\<close>

lemma checkpointLog_value:
  "map (\<lambda>e. (exStep e, exInput e, exOutput e, exErr e = None)) checkpointLog
     = [(1, VNil, VInt 1, True), (2, VInt 1, VInt 0, False), (2, VInt 1, VInt 0, False),
        (2, VInt 1, VInt 0, False)]"
  by code_simp

end
